(* ===== verification/CPrelude.thy ===== *)
theory CPrelude
  imports Main "HOL-Library.Word" "HOL-Library.Multiset"
begin

text \<open>
  Shared vocabulary of the development: the fixed-width C types, the \<open>errno\<close> values the
  sources return, the part of the C library's character and number functions that the sources
  call (\<open>isspace\<close>, \<open>strtol\<close>, \<open>atoi\<close>, \<open>strtoul\<close>, \<open>strcasecmp\<close>, \<open>fgets\<close>, \<open>printf\<close> of decimal
  numbers), and the generic facts about lists, options and words that more than one component
  uses. A C string is the list of its characters without the terminating NUL; a buffer that may
  hold a NUL is cut by \<open>c_str\<close>.
\<close>

section \<open>Types and hint collections\<close>

type_synonym u8 = "8 word"
type_synonym u16 = "16 word"
type_synonym u32 = "32 word"
type_synonym u64 = "64 word"

named_theorems trace_eval \<open>evaluation of traces of acquired and released resources\<close>

section \<open>Error numbers\<close>

text \<open>The values of \<open>include/uapi/asm-generic/errno-base.h\<close> and \<open>errno.h\<close> that occur.\<close>

abbreviation (input) EPERM :: int where "EPERM \<equiv> 1"
abbreviation (input) ESRCH :: int where "ESRCH \<equiv> 3"
abbreviation (input) EIO :: int where "EIO \<equiv> 5"
abbreviation (input) ENOMEM :: int where "ENOMEM \<equiv> 12"
abbreviation (input) EFAULT :: int where "EFAULT \<equiv> 14"
abbreviation (input) EBUSY :: int where "EBUSY \<equiv> 16"
abbreviation (input) EINVAL :: int where "EINVAL \<equiv> 22"
abbreviation (input) ENOTTY :: int where "ENOTTY \<equiv> 25"
abbreviation (input) ENOSYS :: int where "ENOSYS \<equiv> 38"
abbreviation (input) EMSGSIZE :: int where "EMSGSIZE \<equiv> 90"
abbreviation (input) EOPNOTSUPP :: int where "EOPNOTSUPP \<equiv> 95"

section \<open>Characters and strings\<close>

definition c_isspace :: "char \<Rightarrow> bool" where
  "c_isspace c = (let n = (of_char c :: nat) in n = 32 \<or> (9 \<le> n \<and> n \<le> 13))"

definition c_isdigit :: "char \<Rightarrow> bool" where
  "c_isdigit c = (let n = (of_char c :: nat) in 48 \<le> n \<and> n \<le> 57)"

definition c_tolower :: "char \<Rightarrow> char" where
  "c_tolower c = (let n = (of_char c :: nat) in
     if 65 \<le> n \<and> n \<le> 90 then char_of (n + 32) else c)"

definition strcasecmp_eq :: "string \<Rightarrow> string \<Rightarrow> bool" where
  "strcasecmp_eq a b = (map c_tolower a = map c_tolower b)"

definition c_str :: "string \<Rightarrow> string" where
  \<comment> \<open>the C string held by a buffer: everything before the first NUL\<close>
  "c_str b = takeWhile (\<lambda>c. c \<noteq> CHR 0x00) b"

definition ltrim :: "string \<Rightarrow> string" where
  "ltrim s = dropWhile c_isspace s"

definition rtrim :: "string \<Rightarrow> string" where
  "rtrim s = rev (dropWhile c_isspace (rev s))"

lemma ltrim_Nil [simp]: "ltrim [] = []" by (simp add: ltrim_def)
lemma rtrim_Nil [simp]: "rtrim [] = []" by (simp add: rtrim_def)

lemma hd_ltrim: "ltrim s = c # cs \<Longrightarrow> \<not> c_isspace c"
  unfolding ltrim_def by (metis dropWhile_eq_Cons_conv)

lemma dropWhile_idem_if: "(\<forall>c \<in> set s. \<not> P c) \<Longrightarrow> dropWhile P s = s"
  by (cases s) auto

lemma ltrim_id: "(\<forall>c \<in> set s. \<not> c_isspace c) \<Longrightarrow> ltrim s = s"
  by (simp add: ltrim_def dropWhile_idem_if)

lemma rtrim_id: "(\<forall>c \<in> set s. \<not> c_isspace c) \<Longrightarrow> rtrim s = s"
  by (simp add: rtrim_def dropWhile_idem_if)

lemma dropWhile_all_append: "(\<forall>c \<in> set w. P c) \<Longrightarrow> dropWhile P (w @ s) = dropWhile P s"
  by (induction w) auto

lemma rtrim_append_space:
  "(\<forall>c \<in> set w. c_isspace c) \<Longrightarrow> rtrim (s @ w) = rtrim s"
  by (simp add: rtrim_def dropWhile_all_append)

lemma ltrim_append_space:
  "(\<forall>c \<in> set w. c_isspace c) \<Longrightarrow> ltrim (w @ s) = ltrim s"
  by (simp add: ltrim_def dropWhile_all_append)

section \<open>Decimal numbers\<close>

definition digit_char :: "nat \<Rightarrow> char" where
  "digit_char d = char_of (48 + d)"

definition digit_val :: "char \<Rightarrow> nat" where
  "digit_val c = of_char c - 48"

fun dec_of :: "nat \<Rightarrow> string" where
  "dec_of n = (if n < 10 then [digit_char n] else dec_of (n div 10) @ [digit_char (n mod 10)])"

declare dec_of.simps [simp del]

definition dec_of_int :: "int \<Rightarrow> string" where
  "dec_of_int i = (if i < 0 then CHR ''-'' # dec_of (nat (- i)) else dec_of (nat i))"

definition dec_val :: "string \<Rightarrow> nat" where
  "dec_val s = foldl (\<lambda>a c. 10 * a + digit_val c) 0 s"

lemma digit_char_props:
  "d < 10 \<Longrightarrow> c_isdigit (digit_char d) \<and> digit_val (digit_char d) = d"
  by (simp add: c_isdigit_def digit_char_def digit_val_def Let_def)

lemma c_isdigit_not_space: "c_isdigit c \<Longrightarrow> \<not> c_isspace c"
  by (auto simp: c_isdigit_def c_isspace_def Let_def)

lemma dec_val_snoc [simp]: "dec_val (s @ [c]) = 10 * dec_val s + digit_val c"
  by (simp add: dec_val_def)

lemma dec_of_digits: "\<forall>c \<in> set (dec_of n). c_isdigit c"
proof (induction n rule: dec_of.induct)
  case (1 n)
  show ?case
    using "1" by (subst dec_of.simps) (auto simp: digit_char_props)
qed

lemma dec_of_length: "n < 10 ^ k \<Longrightarrow> length (dec_of n) \<le> max 1 k"
proof (induction k arbitrary: n)
  case 0
  then show ?case by (simp add: dec_of.simps)
next
  case (Suc k)
  show ?case
  proof (cases "n < 10")
    case True
    then show ?thesis by (simp add: dec_of.simps)
  next
    case False
    then have "0 < k" using Suc.prems by (cases k) auto
    moreover have "n div 10 < 10 ^ k" using Suc.prems by (simp add: less_mult_imp_div_less mult.commute)
    ultimately show ?thesis using Suc.IH [of "n div 10"] False by (subst dec_of.simps) simp
  qed
qed

lemma dec_of_nonempty [simp]: "dec_of n \<noteq> []"
  by (subst dec_of.simps) simp

lemma dec_val_dec_of [simp]: "dec_val (dec_of n) = n"
proof (induction n rule: dec_of.induct)
  case (1 n)
  show ?case
  proof (cases "n < 10")
    case True
    then show ?thesis
      by (subst dec_of.simps) (simp add: dec_val_def digit_char_props)
  next
    case False
    with "1" show ?thesis
      by (subst dec_of.simps) (simp add: digit_char_props)
  qed
qed

subsection \<open>strtol, atoi and strtoul in base ten\<close>

definition scan_sign :: "string \<Rightarrow> bool \<times> string" where
  "scan_sign s = (case s of
       [] \<Rightarrow> (False, [])
     | c # cs \<Rightarrow> if c = CHR ''-'' then (True, cs)
                else if c = CHR ''+'' then (False, cs) else (False, s))"

definition c_strtol :: "string \<Rightarrow> int" where
  \<comment> \<open>64-bit \<open>long\<close>, saturating as on \<open>ERANGE\<close>; 0 when there are no digits\<close>
  "c_strtol s = (case scan_sign (ltrim s) of (neg, u) \<Rightarrow>
     let v = int (dec_val (takeWhile c_isdigit u)) in
     if neg then max (- (2 ^ 63)) (- v) else min (2 ^ 63 - 1) v)"

definition c_atoi :: "string \<Rightarrow> int" where
  \<comment> \<open>\<open>(int) strtol(s, NULL, 10)\<close>\<close>
  "c_atoi s = sint (word_of_int (c_strtol s) :: u32)"

definition c_strtoul :: "string \<Rightarrow> (u64 \<times> string) option" where
  \<comment> \<open>\<open>None\<close> stands for \<open>*end == cursor\<close>: no conversion was performed\<close>
  "c_strtoul s = (case scan_sign (ltrim s) of (neg, u) \<Rightarrow>
     let ds = takeWhile c_isdigit u; v = dec_val ds in
     if ds = [] then None
     else Some (if v \<ge> 2 ^ 64 then - 1
                else if neg then - word_of_nat v else word_of_nat v,
                dropWhile c_isdigit u))"

definition to_u16 :: "int \<Rightarrow> u16" where
  "to_u16 i = word_of_int i"

lemma ltrim_dec_of [simp]: "ltrim (dec_of n @ s) = dec_of n @ s"
proof (cases "dec_of n")
  case (Cons c cs)
  then have "c_isdigit c" using dec_of_digits [of n] by simp
  then show ?thesis by (simp add: Cons ltrim_def c_isdigit_not_space)
qed simp

lemma scan_sign_length: "scan_sign s = (neg, u) \<Longrightarrow> length u \<le> length s"
  by (cases s) (auto simp: scan_sign_def split: if_splits)

lemma scan_sign_digit: "c_isdigit c \<Longrightarrow> scan_sign (c # cs) = (False, c # cs)"
  by (auto simp: scan_sign_def c_isdigit_def Let_def)

lemma scan_sign_dec_of [simp]: "scan_sign (dec_of n @ s) = (False, dec_of n @ s)"
proof (cases "dec_of n")
  case (Cons c cs)
  then have "c_isdigit c" using dec_of_digits [of n] by simp
  then show ?thesis by (simp add: Cons scan_sign_digit)
qed simp

lemma span_digits:
  assumes "\<forall>c \<in> set ds. c_isdigit c" and "s = [] \<or> \<not> c_isdigit (hd s)"
  shows "takeWhile c_isdigit (ds @ s) = ds" "dropWhile c_isdigit (ds @ s) = s"
  using assms by (induction ds) (cases s; auto)+

lemma c_strtoul_dec_of:
  assumes "n < 2 ^ 64" and "s = [] \<or> \<not> c_isdigit (hd s)"
  shows "c_strtoul (dec_of n @ s) = Some (word_of_nat n, s)"
  using assms span_digits [OF dec_of_digits assms(2), of n]
  by (simp add: c_strtoul_def Let_def)

lemma c_strtoul_dec_of_big:
  assumes "2 ^ 64 \<le> n" and "s = [] \<or> \<not> c_isdigit (hd s)"
  shows "c_strtoul (dec_of n @ s) = Some (- 1, s)"
  using assms span_digits [OF dec_of_digits assms(2), of n]
  by (simp add: c_strtoul_def Let_def)

lemma c_strtoul_shorter: "c_strtoul s = Some (v, r) \<Longrightarrow> length r < length s"
proof -
  assume run: "c_strtoul s = Some (v, r)"
  obtain neg u where u: "scan_sign (ltrim s) = (neg, u)" by fastforce
  have "length u \<le> length (ltrim s)" by (rule scan_sign_length [OF u])
  also have "\<dots> \<le> length s" by (simp add: ltrim_def length_dropWhile_le)
  finally have "length u \<le> length s" .
  moreover have "takeWhile c_isdigit u \<noteq> []" "r = dropWhile c_isdigit u"
    using run u by (auto simp: c_strtoul_def Let_def split: if_splits)
  then have "length r < length u"
    by (metis length_append length_greater_0_conv less_add_same_cancel2 takeWhile_dropWhile_id)
  ultimately show ?thesis by simp
qed

lemma c_atoi_dec_of:
  assumes "n < 2 ^ 31"
  shows "c_atoi (dec_of n) = int n"
proof -
  have tw: "takeWhile c_isdigit (dec_of n) = dec_of n"
    by (simp add: dec_of_digits)
  from assms have "c_strtol (dec_of n) = int n"
    using ltrim_dec_of [of n "[]"] scan_sign_dec_of [of n "[]"]
    by (simp add: c_strtol_def tw)
  moreover have "sint (word_of_int (int n) :: u32) = int n"
    unfolding sint_sbintrunc' using assms by (intro signed_take_bit_int_eq_self) simp_all
  ultimately show ?thesis by (simp add: c_atoi_def)
qed

lemma c_atoi_range: "- (2 ^ 31) \<le> c_atoi s \<and> c_atoi s < 2 ^ 31"
  using sint_range_size [of "word_of_int (c_strtol s) :: u32"]
  by (simp add: c_atoi_def word_size)

section \<open>Reading lines\<close>

text \<open>
  \<open>fgets (buf, size, fp)\<close> in a loop: each call reads at most \<open>size - 1\<close> bytes, up to and
  including the next newline, until nothing is left.
\<close>

fun fgets_chunk :: "nat \<Rightarrow> string \<Rightarrow> string \<times> string" where
  "fgets_chunk 0 s = ([], s)"
| "fgets_chunk (Suc n) [] = ([], [])"
| "fgets_chunk (Suc n) (c # cs) =
     (if c = CHR 0x0A then ([c], cs)
      else case fgets_chunk n cs of (l, r) \<Rightarrow> (c # l, r))"

lemma fgets_chunk_append: "fgets_chunk n s = (l, r) \<Longrightarrow> l @ r = s"
  by (induction n s arbitrary: l r rule: fgets_chunk.induct)
     (auto split: if_splits prod.splits)

lemma fgets_chunk_length: "fgets_chunk n s = (l, r) \<Longrightarrow> length l \<le> n"
  by (induction n s arbitrary: l r rule: fgets_chunk.induct)
     (auto split: if_splits prod.splits)

lemma fgets_chunk_progress:
  "fgets_chunk (Suc n) (c # cs) = (l, r) \<Longrightarrow> length r < length (c # cs)"
  by (auto dest!: fgets_chunk_append split: if_splits prod.splits)

lemma fgets_chunk_rest_le: "length (snd (fgets_chunk n s)) \<le> length s"
proof (cases "fgets_chunk n s")
  case (Pair l r)
  from fgets_chunk_append [OF this] have "length l + length r = length s"
    by (metis length_append)
  then show ?thesis by (simp add: Pair)
qed

function fgets_lines :: "nat \<Rightarrow> string \<Rightarrow> string list" where
  "fgets_lines sz [] = []"
| "fgets_lines sz (c # cs) =
     (if sz \<le> 1 then []
      else let lr = fgets_chunk (sz - 1) (c # cs) in fst lr # fgets_lines sz (snd lr))"
  by pat_completeness auto
termination
proof (relation "measure (\<lambda>(sz, s). length s)", goal_cases)
  case (2 sz c cs lr)
  then obtain n where n: "sz - 1 = Suc n" by (cases "sz - 1") auto
  with 2 show ?case
    by (cases "fgets_chunk (Suc n) (c # cs)") (use fgets_chunk_progress in fastforce)
qed simp

lemma fgets_lines_length:
  "l \<in> set (fgets_lines sz s) \<Longrightarrow> length l \<le> sz - 1"
proof (induction sz s rule: fgets_lines.induct)
  case (2 sz c cs)
  obtain a r where lr: "fgets_chunk (sz - 1) (c # cs) = (a, r)" by fastforce
  from fgets_chunk_length [OF lr] 2 lr show ?case by (auto simp: Let_def split: if_splits)
qed simp

lemma fgets_lines_concat:
  "1 < sz \<Longrightarrow> concat (fgets_lines sz s) = s"
proof (induction sz s rule: fgets_lines.induct)
  case (2 sz c cs)
  obtain l r where lr: "fgets_chunk (sz - 1) (c # cs) = (l, r)" by fastforce
  from fgets_chunk_append [OF lr] 2 lr show ?case by (simp add: Let_def)
qed simp

section \<open>Little-endian integers\<close>

fun le_bytes :: "nat \<Rightarrow> nat \<Rightarrow> u8 list" where
  "le_bytes 0 v = []"
| "le_bytes (Suc n) v = word_of_nat v # le_bytes n (v div 256)"

fun le_val :: "u8 list \<Rightarrow> nat" where
  "le_val [] = 0"
| "le_val (b # bs) = unat b + 256 * le_val bs"

lemma length_le_bytes [simp]: "length (le_bytes n v) = n"
  by (induction n v rule: le_bytes.induct) auto

lemma le_val_bytes: "le_val (le_bytes n v) = v mod 256 ^ n"
proof (induction n v rule: le_bytes.induct)
  case (2 n v)
  have "unat (word_of_nat v :: u8) = v mod 256" by (simp add: unat_of_nat)
  with 2 show ?case by (simp add: mod_mult2_eq)
qed simp

lemma le_val_bytes_id [simp]: "v < 256 ^ n \<Longrightarrow> le_val (le_bytes n v) = v"
  by (simp add: le_val_bytes)

definition byte_char :: "u8 \<Rightarrow> char" where "byte_char b = char_of (unat b)"
definition char_byte :: "char \<Rightarrow> u8" where "char_byte c = word_of_nat (of_char c)"

lemma byte_char_byte [simp]: "byte_char (char_byte c) = c"
proof -
  have "of_char c < (256 :: nat)" by (rule nat_of_char_less_256)
  then show ?thesis by (simp add: byte_char_def char_byte_def unat_of_nat)
qed

lemma char_byte_zero [simp]: "byte_char 0 = CHR 0x00"
  by code_simp

lemma take_le_bytes [simp]: "n = m \<Longrightarrow> take m (le_bytes n v) = le_bytes n v"
  by simp

lemma c_str_no_nul: "CHR 0x00 \<notin> set s \<Longrightarrow> c_str (s @ CHR 0x00 # r) = s"
  by (induction s) (auto simp: c_str_def)

section \<open>Hexadecimal numbers\<close>

definition hex_char :: "nat \<Rightarrow> char" where
  "hex_char d = (if d < 10 then char_of (48 + d) else char_of (87 + d))"

fun hex_of :: "nat \<Rightarrow> string" where
  "hex_of n = (if n < 16 then [hex_char n] else hex_of (n div 16) @ [hex_char (n mod 16)])"

declare hex_of.simps [simp del]

definition printf_hex :: "nat \<Rightarrow> string" where
  \<comment> \<open>\<open>%#lx\<close>: no prefix for zero\<close>
  "printf_hex n = (if n = 0 then ''0'' else ''0x'' @ hex_of n)"

definition hex_digit :: "char \<Rightarrow> nat option" where
  "hex_digit c = (let n = (of_char c :: nat) in
     if 48 \<le> n \<and> n \<le> 57 then Some (n - 48)
     else if 97 \<le> n \<and> n \<le> 102 then Some (n - 87)
     else if 65 \<le> n \<and> n \<le> 70 then Some (n - 55) else None)"

definition is_hex :: "char \<Rightarrow> bool" where "is_hex c = (hex_digit c \<noteq> None)"

definition hex_val :: "string \<Rightarrow> nat" where
  "hex_val s = foldl (\<lambda>a c. 16 * a + the (hex_digit c)) 0 s"

definition scan_hex :: "string \<Rightarrow> (u64 \<times> string) option" where
  \<comment> \<open>\<open>fscanf\<close> with \<open>%lx\<close>, without a sign: white space, an optional prefix, digits; saturating\<close>
  "scan_hex s =
     (let u = ltrim s;
          v = (if take 2 u = ''0x'' \<and> takeWhile is_hex (drop 2 u) \<noteq> [] then drop 2 u else u);
          ds = takeWhile is_hex v in
      if ds = [] then None
      else Some (if 2 ^ 64 \<le> hex_val ds then - 1 else word_of_nat (hex_val ds), dropWhile is_hex v))"

lemma hex_char_digit: "d < 16 \<Longrightarrow> hex_digit (hex_char d) = Some d"
  by (simp add: hex_digit_def hex_char_def Let_def)

lemma hex_char_not_space: "d < 16 \<Longrightarrow> \<not> c_isspace (hex_char d)"
  by (simp add: c_isspace_def hex_char_def Let_def)

lemma hex_of_digits: "\<forall>c \<in> set (hex_of n). is_hex c"
proof (induction n rule: hex_of.induct)
  case (1 n)
  then show ?case by (subst hex_of.simps) (auto simp: is_hex_def hex_char_digit)
qed

lemma hex_of_nonempty [simp]: "hex_of n \<noteq> []"
  by (subst hex_of.simps) simp

lemma hex_val_hex_of [simp]: "hex_val (hex_of n) = n"
proof (induction n rule: hex_of.induct)
  case (1 n)
  then show ?case by (subst hex_of.simps) (auto simp: hex_val_def hex_char_digit)
qed

lemma scan_hex_printf: 
  assumes "n < 2 ^ 64"
  shows "scan_hex (printf_hex n) = Some (word_of_nat n, [])"
proof (cases "n = 0")
  case True
  have "takeWhile is_hex ''0'' = ''0''" "hex_val ''0'' = 0" "ltrim ''0'' = ''0''" "dropWhile is_hex ''0'' = []"
    by code_simp+
  then show ?thesis using True by (simp add: scan_hex_def printf_hex_def)
next
  case False
  have all: "takeWhile is_hex (hex_of n) = hex_of n" "dropWhile is_hex (hex_of n) = []"
    using hex_of_digits [of n] by simp_all
  have "ltrim (''0x'' @ hex_of n) = ''0x'' @ hex_of n"
    by (simp add: ltrim_def c_isspace_def Let_def)
  with False assms show ?thesis
    by (simp add: scan_hex_def printf_hex_def Let_def all)
qed

end
