(* ===== verification/Machine.thy ===== *)
theory Machine
  imports CPrelude
begin

text \<open>
  The interfaces the stateful components share. \<open>reach\<close> is reachability under a step relation;
  the locale \<open>invariant_system\<close> turns "holds at the start and is kept by every step" into "holds
  in every reachable state"; \<open>counted_system\<close> extends it for the kernel modules whose reference
  count has to agree with the number of their users, so that the module can be unloaded exactly
  when nobody needs it. Each component interprets them on its own step relation. The second part
  is the bookkeeping of acquired and released resources (file descriptors, kernel references,
  heap blocks) along the trace of one call.
\<close>

section \<open>Outcomes of a user-space run\<close>

text \<open>A process goes on with a value, ends in \<open>exit(n)\<close>, or dereferences a bad pointer.\<close>

datatype 'a outcome = Running 'a | Exited int | Crashed

fun bind_outcome :: "'a outcome \<Rightarrow> ('a \<Rightarrow> 'b outcome) \<Rightarrow> 'b outcome" where
  "bind_outcome (Running a) f = f a"
| "bind_outcome (Exited n) f = Exited n"
| "bind_outcome Crashed f = Crashed"

lemma bind_outcome_Running_iff:
  "bind_outcome m f = Running b \<longleftrightarrow> (\<exists>a. m = Running a \<and> f a = Running b)"
  by (cases m) auto

section \<open>Reachability and invariants\<close>

inductive reach :: "('s \<Rightarrow> bool) \<Rightarrow> ('s \<Rightarrow> 's \<Rightarrow> bool) \<Rightarrow> 's \<Rightarrow> bool"
  for init step where
  reach_init: "init s \<Longrightarrow> reach init step s"
| reach_step: "reach init step s \<Longrightarrow> step s t \<Longrightarrow> reach init step t"

locale invariant_system =
  fixes init :: "'s \<Rightarrow> bool" and step :: "'s \<Rightarrow> 's \<Rightarrow> bool" and inv :: "'s \<Rightarrow> bool"
  assumes inv_init: "init s \<Longrightarrow> inv s"
    and inv_step: "inv s \<Longrightarrow> step s t \<Longrightarrow> inv t"
begin

lemma reach_inv: "reach init step s \<Longrightarrow> inv s"
  by (induction rule: reach.induct) (auto intro: inv_init inv_step)

lemma reach_closed: "inv s \<Longrightarrow> step\<^sup>*\<^sup>* s t \<Longrightarrow> inv t"
  by (rotate_tac 1, induction rule: rtranclp_induct) (auto intro: inv_step)

end

locale counted_system = invariant_system init step inv
  for init :: "'s \<Rightarrow> bool" and step :: "'s \<Rightarrow> 's \<Rightarrow> bool" and inv :: "'s \<Rightarrow> bool" +
  fixes refs :: "'s \<Rightarrow> nat" and users :: "'s \<Rightarrow> nat"
  assumes refs_users: "inv s \<Longrightarrow> refs s = users s"
begin

lemma reach_refs: "reach init step s \<Longrightarrow> refs s = users s"
  using reach_inv refs_users by blast

lemma unload_iff_idle: "reach init step s \<Longrightarrow> refs s = 0 \<longleftrightarrow> users s = 0"
  using reach_refs by simp

end

section \<open>Acquired and released resources\<close>

datatype 'r rev = Acquire 'r | Release 'r

fun run_trace :: "'r multiset \<Rightarrow> 'r rev list \<Rightarrow> 'r multiset option" where
  \<comment> \<open>\<open>None\<close>: something is released that is not held\<close>
  "run_trace M [] = Some M"
| "run_trace M (Acquire r # es) = run_trace (add_mset r M) es"
| "run_trace M (Release r # es) = (if r \<in># M then run_trace (M - {#r#}) es else None)"

definition balanced :: "'r rev list \<Rightarrow> bool" where
  "balanced es \<longleftrightarrow> run_trace {#} es = Some {#}"

definition leaks :: "'r rev list \<Rightarrow> 'r multiset \<Rightarrow> bool" where
  "leaks es M \<longleftrightarrow> run_trace {#} es = Some M"

declare balanced_def [trace_eval] leaks_def [trace_eval]

lemma run_trace_append:
  "run_trace M (es @ fs) = (case run_trace M es of None \<Rightarrow> None | Some N \<Rightarrow> run_trace N fs)"
  by (induction M es rule: run_trace.induct) auto

lemma run_trace_frame:
  "run_trace M es = Some N \<Longrightarrow> run_trace (M + K) es = Some (N + K)"
proof (induction M es rule: run_trace.induct)
  case (3 M r es)
  then have r: "r \<in># M" and run: "run_trace (M - {#r#}) es = Some N"
    by (auto split: if_splits)
  from r obtain M' where M: "M = add_mset r M'" by (auto dest: multi_member_split)
  with "3.IH" [OF r run] show ?case by simp
qed auto

lemma balanced_append: "balanced es \<Longrightarrow> balanced fs \<Longrightarrow> balanced (es @ fs)"
  by (simp add: balanced_def run_trace_append)

lemma leaks_append: "leaks es M \<Longrightarrow> leaks fs N \<Longrightarrow> leaks (es @ fs) (M + N)"
  using run_trace_frame [of "{#}" fs N M]
  by (simp add: leaks_def run_trace_append add.commute)

lemma leaks_none: "leaks es {#} \<longleftrightarrow> balanced es"
  by (simp add: leaks_def balanced_def)

lemma balanced_concat: "\<forall>t \<in> set ts. balanced t \<Longrightarrow> balanced (concat ts)"
  by (induction ts) (simp add: balanced_def, simp add: balanced_append)

lemma balanced_bracket: "balanced es \<Longrightarrow> balanced (Acquire r # es @ [Release r])"
  using run_trace_frame [of "{#}" es "{#}" "{#r#}"]
  by (simp add: balanced_def run_trace_append)

text \<open>
  The contract of an operation that cleans up after itself: whatever it is called with and however it ends,
  it releases exactly what it acquires. Then so does every sequence of calls, also between the acquisition
  and the release of something else.
\<close>

locale clean_call =
  fixes trace_of :: "'a \<Rightarrow> 'r rev list"
  assumes call_balanced: "balanced (trace_of a)"
begin

lemma calls_balanced: "balanced (concat (map trace_of as))"
  by (intro balanced_concat) (auto simp: call_balanced)

lemma two_calls_balanced: "balanced (trace_of a @ trace_of b)"
  by (intro balanced_append call_balanced)

lemma calls_within_balanced: "balanced (Acquire r # concat (map trace_of as) @ [Release r])"
  by (intro balanced_bracket calls_balanced)

end

end
