(* ===== verification/Config.thy ===== *)
theory Config
  imports Machine "HOL-Library.Sublist"
begin

text \<open>
  The layered configuration loader of \<open>linux-c/config-demo\<close>: the record \<open>app_config\<close>
  (\<open>config.h\<close>), the four sources (\<open>defaults_source.c\<close>, \<open>file_source.c\<close>, \<open>env_source.c\<close>,
  \<open>cli_source.c\<close>) and their orchestration \<open>config_load\<close> and output (\<open>config-demo.c\<close>).
  The operating system is the argument \<open>sysenv\<close>: the environment variables, the files, and the
  bytes that happen to lie behind an argument string. GNU \<open>getopt_long\<close> is modelled as its
  manual describes it, for the option tables the program passes. \<open>strdup\<close> is taken to
  succeed. The contract the sources share is the locale \<open>config_source\<close>: a source either ends
  the program or performs a list of field writes.
\<close>

section \<open>Data\<close>

record app_config =
  address :: "string option"
  port :: u16
  log_level :: int
  debug :: bool
  config_file :: "string option"

record sysenv =
  env_var :: "string \<Rightarrow> string option"       \<comment> \<open>\<open>getenv\<close>\<close>
  file_exists :: "string \<Rightarrow> bool"            \<comment> \<open>\<open>access(path, F_OK) == 0\<close>\<close>
  file_content :: "string \<Rightarrow> string option"  \<comment> \<open>\<open>fopen(path, "r")\<close> and what it reads\<close>
  past_arg :: "nat \<Rightarrow> string"                \<comment> \<open>the string one byte past the NUL of \<open>argv[i]\<close>\<close>

definition CONFIG_DEFAULT_CONFIG_FILE :: string where
  "CONFIG_DEFAULT_CONFIG_FILE = ''/etc/config-demo.conf''"

definition CONFIG_USER_CONFIG_FILE :: string where
  "CONFIG_USER_CONFIG_FILE = ''.config/config-demo.conf''"

definition MAX_LINE_LENGTH :: nat where "MAX_LINE_LENGTH = 512"

definition config_set_string :: "string option \<Rightarrow> string option \<Rightarrow> string option" where
  \<comment> \<open>\<open>free(*field); *field = value ? strdup(value) : NULL\<close>\<close>
  "config_set_string field v = (case v of None \<Rightarrow> None | Some s \<Rightarrow> Some s)"

definition config_init :: "app_config \<Rightarrow> app_config" where
  "config_init cfg =
     \<lparr>address = None, port = 0, log_level = 0, debug = False, config_file = None\<rparr>"

definition config_destroy :: "app_config \<Rightarrow> app_config" where
  "config_destroy cfg =
     \<lparr>address = None, port = 0, log_level = 0, debug = False, config_file = None\<rparr>"

section \<open>Defaults\<close>

definition apply_defaults :: "app_config \<Rightarrow> app_config" where
  "apply_defaults cfg =
     (let c1 = (if address cfg = None
                then cfg\<lparr>address := config_set_string (address cfg) (Some ''localhost'')\<rparr>
                else cfg);
          c2 = (if port c1 = 0 then c1\<lparr>port := 8080\<rparr> else c1);
          c3 = (if log_level c2 = 0 then c2\<lparr>log_level := 3\<rparr> else c2)
      in c3)"

section \<open>Environment variables\<close>

definition parse_bool :: "string \<Rightarrow> bool" where
  "parse_bool v = (v = ''1'' \<or> strcasecmp_eq v ''true'')"

definition apply_env_config :: "sysenv \<Rightarrow> app_config \<Rightarrow> app_config" where
  "apply_env_config e cfg =
     (let c1 = (case env_var e ''CONFIG_DEMO_ADDRESS'' of None \<Rightarrow> cfg
                | Some v \<Rightarrow> cfg\<lparr>address := config_set_string (address cfg) (Some v)\<rparr>);
          c2 = (case env_var e ''CONFIG_DEMO_PORT'' of None \<Rightarrow> c1
                | Some v \<Rightarrow> c1\<lparr>port := to_u16 (c_atoi v)\<rparr>);
          c3 = (case env_var e ''CONFIG_DEMO_LOG_LEVEL'' of None \<Rightarrow> c2
                | Some v \<Rightarrow> c2\<lparr>log_level := c_atoi v\<rparr>);
          c4 = (case env_var e ''CONFIG_DEMO_DEBUG'' of None \<Rightarrow> c3
                | Some v \<Rightarrow> c3\<lparr>debug := parse_bool v\<rparr>);
          c5 = (case env_var e ''CONFIG_DEMO_CONFIG'' of None \<Rightarrow> c4
                | Some v \<Rightarrow> c4\<lparr>config_file := config_set_string (config_file c4) (Some v)\<rparr>)
      in c5)"

section \<open>Configuration file\<close>

definition find_config_file :: "sysenv \<Rightarrow> app_config \<Rightarrow> int \<times> app_config" where
  "find_config_file e cfg =
     (if config_file cfg \<noteq> None then (0, cfg)
      else if file_exists e CONFIG_DEFAULT_CONFIG_FILE
      then (0, cfg\<lparr>config_file :=
                  config_set_string (config_file cfg) (Some CONFIG_DEFAULT_CONFIG_FILE)\<rparr>)
      else case env_var e ''HOME'' of
        None \<Rightarrow> (- 1, cfg)
      | Some home \<Rightarrow>
          let user_config = take 511 (home @ ''/'' @ CONFIG_USER_CONFIG_FILE) in
          if file_exists e user_config
          then (0, cfg\<lparr>config_file := config_set_string (config_file cfg) (Some user_config)\<rparr>)
          else (- 1, cfg))"

text \<open>
  One line of the file, as \<open>fgets\<close> left it in the buffer: skipped (\<open>None\<close>) when it is a comment
  or has no \<open>=\<close>, otherwise the trimmed key and value.
\<close>

definition parse_line :: "string \<Rightarrow> (string \<times> string) option" where
  "parse_line line =
     (let trimmed = ltrim (c_str line) in
      if trimmed \<noteq> [] \<and> (hd trimmed = CHR ''#'' \<or> hd trimmed = CHR '';'') then None
      else if CHR ''='' \<notin> set trimmed then None
      else let key = rtrim (takeWhile (\<lambda>c. c \<noteq> CHR ''='') trimmed);
               val_start = ltrim (tl (dropWhile (\<lambda>c. c \<noteq> CHR ''='') trimmed));
               value = rtrim (take (MAX_LINE_LENGTH - 1) val_start)
           in Some (key, value))"

definition apply_key_value :: "string \<Rightarrow> string \<Rightarrow> app_config \<Rightarrow> app_config" where
  "apply_key_value key v cfg =
     (if key = ''address'' then cfg\<lparr>address := config_set_string (address cfg) (Some v)\<rparr>
      else if key = ''port'' then cfg\<lparr>port := to_u16 (c_atoi v)\<rparr>
      else if key = ''log_level'' then cfg\<lparr>log_level := c_atoi v\<rparr>
      else if key = ''debug'' then cfg\<lparr>debug := parse_bool v\<rparr>
      else cfg)"

definition apply_line :: "string \<Rightarrow> app_config \<Rightarrow> app_config" where
  "apply_line line cfg =
     (case parse_line line of None \<Rightarrow> cfg | Some (key, v) \<Rightarrow> apply_key_value key v cfg)"

definition apply_file_config :: "sysenv \<Rightarrow> app_config \<Rightarrow> int \<times> app_config" where
  "apply_file_config e cfg =
     (case find_config_file e cfg of (ret, c) \<Rightarrow>
        if ret \<noteq> 0 then (- 1, c)
        else case config_file c of
          None \<Rightarrow> (- 1, c)
        | Some path \<Rightarrow>
            (case file_content e path of
               None \<Rightarrow> (- 1, c)
             | Some text \<Rightarrow> (0, fold apply_line (fgets_lines MAX_LINE_LENGTH text) c)))"

section \<open>Command line\<close>

subsection \<open>GNU getopt_long\<close>

text \<open>
  The value each call returns with its \<open>optarg\<close> (\<open>None\<close> for NULL), in order. The returned
  \<open>CHR ''?''\<close> stands for an unknown or ambiguous option and for a missing argument.
\<close>

type_synonym opt_event = "char \<times> string option"

definition short_options :: string where "short_options = ''s:p:l:dch''"

definition long_options :: "(string \<times> bool \<times> char) list" where
  "long_options =
     [(''address'', True, CHR ''s''), (''port'', True, CHR ''p''), (''log-level'', True, CHR ''l''),
      (''debug'', False, CHR ''d''), (''config'', True, CHR ''c''), (''help'', False, CHR ''h'')]"

fun short_lookup :: "string \<Rightarrow> char \<Rightarrow> bool option" where
  "short_lookup [] c = None"
| "short_lookup (x # xs) c =
     (if x = c \<and> c \<noteq> CHR '':'' then Some (case xs of [] \<Rightarrow> False | y # _ \<Rightarrow> y = CHR '':'')
      else short_lookup xs c)"

fun getopt_cluster :: "string \<Rightarrow> string list \<Rightarrow> opt_event list \<times> string list" where
  "getopt_cluster [] args = ([], args)"
| "getopt_cluster (c # cs) args =
     (case short_lookup short_options c of
        None \<Rightarrow> (case getopt_cluster cs args of (es, r) \<Rightarrow> ((CHR ''?'', None) # es, r))
      | Some False \<Rightarrow> (case getopt_cluster cs args of (es, r) \<Rightarrow> ((c, None) # es, r))
      | Some True \<Rightarrow>
          if cs \<noteq> [] then ([(c, Some cs)], args)
          else case args of [] \<Rightarrow> ([(CHR ''?'', None)], [])
               | a # as \<Rightarrow> ([(c, Some a)], as))"

definition long_lookup :: "string \<Rightarrow> (bool \<times> char) option" where
  "long_lookup name =
     (case filter (\<lambda>(n, _). n = name) long_options of
        (_, h, v) # _ \<Rightarrow> Some (h, v)
      | [] \<Rightarrow> (case filter (\<lambda>(n, _). prefix name n) long_options of
                 [(_, h, v)] \<Rightarrow> Some (h, v)
               | _ \<Rightarrow> None))"

definition getopt_long_arg :: "string \<Rightarrow> string list \<Rightarrow> opt_event \<times> string list" where
  "getopt_long_arg body args =
     (let name = takeWhile (\<lambda>c. c \<noteq> CHR ''='') body;
          val = (if CHR ''='' \<in> set body
                 then Some (tl (dropWhile (\<lambda>c. c \<noteq> CHR ''='') body)) else None)
      in case long_lookup name of
           None \<Rightarrow> ((CHR ''?'', None), args)
         | Some (False, v) \<Rightarrow>
             (if val = None then (v, None) else (CHR ''?'', None), args)
         | Some (True, v) \<Rightarrow>
             (case val of
                Some x \<Rightarrow> ((v, Some x), args)
              | None \<Rightarrow> (case args of [] \<Rightarrow> ((CHR ''?'', None), [])
                         | a # as \<Rightarrow> ((v, Some a), as))))"

lemma getopt_cluster_shorter: "length (snd (getopt_cluster cs args)) \<le> length args"
  by (induction cs args rule: getopt_cluster.induct)
     (auto split: option.splits bool.splits prod.splits list.splits)

lemma getopt_long_arg_shorter: "length (snd (getopt_long_arg body args)) \<le> length args"
  by (auto simp: getopt_long_arg_def Let_def split: option.splits bool.splits prod.splits list.splits)

function getopt_long :: "bool \<Rightarrow> string list \<Rightarrow> opt_event list" where
  "getopt_long posix [] = []"
| "getopt_long posix (a # args) =
     (if a = ''--'' then []
      else if prefix ''--'' a
      then (let r = getopt_long_arg (drop 2 a) args in fst r # getopt_long posix (snd r))
      else if prefix ''-'' a \<and> a \<noteq> ''-''
      then (let r = getopt_cluster (drop 1 a) args in fst r @ getopt_long posix (snd r))
      else if posix then [] else getopt_long posix args)"
  by pat_completeness auto
termination
  by (relation "measure (\<lambda>(posix, args). length args)")
     (auto simp: le_imp_less_Suc getopt_cluster_shorter getopt_long_arg_shorter)

subsection \<open>The two passes over the arguments\<close>

definition strncmp_eq :: "string \<Rightarrow> string \<Rightarrow> nat \<Rightarrow> bool" where
  \<comment> \<open>\<open>strncmp(a, b, n) == 0\<close>: the terminating NUL takes part in the comparison\<close>
  "strncmp_eq a b n = (take n (a @ [CHR 0x00]) = take n (b @ [CHR 0x00]))"

definition arg_plus :: "sysenv \<Rightarrow> string list \<Rightarrow> nat \<Rightarrow> nat \<Rightarrow> string" where
  \<comment> \<open>the C string at \<open>argv[i] + k\<close>\<close>
  "arg_plus e argv i k = (if k \<le> length (argv ! i) then drop k (argv ! i) else past_arg e i)"

definition config_file_arg :: "sysenv \<Rightarrow> string list \<Rightarrow> nat \<Rightarrow> app_config \<Rightarrow> app_config" where
  "config_file_arg e argv i cfg =
     (if argv ! i = ''-c'' \<and> i + 1 < length argv
      then cfg\<lparr>config_file := config_set_string (config_file cfg) (Some (argv ! (i + 1)))\<rparr>
      else if strncmp_eq (argv ! i) ''--config='' 10
      then cfg\<lparr>config_file := config_set_string (config_file cfg) (Some (arg_plus e argv i 10))\<rparr>
      else cfg)"

definition apply_cli_args_for_config_file :: "sysenv \<Rightarrow> string list \<Rightarrow> app_config \<Rightarrow> app_config" where
  "apply_cli_args_for_config_file e argv cfg =
     fold (config_file_arg e argv) [1..<length argv] cfg"

definition cli_event :: "opt_event \<Rightarrow> app_config \<Rightarrow> app_config outcome" where
  "cli_event ev cfg = (case ev of (opt, optarg) \<Rightarrow>
     if opt = CHR ''s'' then Running (cfg\<lparr>address := config_set_string (address cfg) optarg\<rparr>)
     else if opt = CHR ''p'' then
       (case optarg of None \<Rightarrow> Crashed | Some v \<Rightarrow> Running (cfg\<lparr>port := to_u16 (c_atoi v)\<rparr>))
     else if opt = CHR ''l'' then
       (case optarg of None \<Rightarrow> Crashed | Some v \<Rightarrow> Running (cfg\<lparr>log_level := c_atoi v\<rparr>))
     else if opt = CHR ''d'' then Running (cfg\<lparr>debug := True\<rparr>)
     else if opt = CHR ''c'' then
       Running (cfg\<lparr>config_file := config_set_string (config_file cfg) optarg\<rparr>)
     else if opt = CHR ''h'' then Exited 0
     else Running cfg)"

fun cli_events :: "opt_event list \<Rightarrow> app_config \<Rightarrow> app_config outcome" where
  "cli_events [] cfg = Running cfg"
| "cli_events (ev # evs) cfg = bind_outcome (cli_event ev cfg) (cli_events evs)"

definition apply_cli_args :: "sysenv \<Rightarrow> string list \<Rightarrow> app_config \<Rightarrow> app_config outcome" where
  "apply_cli_args e argv cfg =
     cli_events (getopt_long (env_var e ''POSIXLY_CORRECT'' \<noteq> None) (tl argv)) cfg"

section \<open>Orchestration and output\<close>

definition config_load :: "sysenv \<Rightarrow> string list \<Rightarrow> app_config \<Rightarrow> app_config outcome" where
  "config_load e argv cfg =
     (let c0 = config_init cfg;
          c1 = apply_defaults c0;
          c2 = apply_cli_args_for_config_file e argv c1;
          c3 = snd (apply_file_config e c2);
          c4 = apply_env_config e c3
      in apply_cli_args e argv c4)"

definition log_level_names :: "string list" where
  "log_level_names = [''ERROR'', ''WARN'', ''INFO'']"

definition log_level_name :: "int \<Rightarrow> string" where
  "log_level_name l = (if l \<ge> 1 \<and> l \<le> 3 then log_level_names ! nat (l - 1) else ''UNKNOWN'')"

definition string_or :: "string \<Rightarrow> string option \<Rightarrow> string" where
  "string_or d v = (case v of None \<Rightarrow> d | Some s \<Rightarrow> s)"

definition config_print :: "app_config \<Rightarrow> string list" where
  \<comment> \<open>the printed lines; glibc prints a NULL \<open>%s\<close> as \<open>(null)\<close>\<close>
  "config_print cfg =
     [''Configuration:'',
      ''  address:     '' @ string_or ''(null)'' (address cfg),
      ''  port:        '' @ dec_of (unat (port cfg)),
      ''  log_level:   '' @ dec_of_int (log_level cfg) @ '' ('' @ log_level_name (log_level cfg) @ '')'',
      ''  debug:       '' @ (if debug cfg then ''true'' else ''false''),
      ''  config:      '' @ string_or ''(none)'' (config_file cfg)]"

definition config_main :: "sysenv \<Rightarrow> string list \<Rightarrow> app_config \<Rightarrow> (int \<times> string list) outcome" where
  \<comment> \<open>exit code and the part of the output that depends on the configuration\<close>
  "config_main e argv junk =
     bind_outcome (config_load e argv junk) (\<lambda>cfg.
       Running (0, config_print cfg @
         [''  3. Config file: '' @ string_or ''(not found)'' (config_file cfg)]))"

section \<open>The contract of a configuration source\<close>

text \<open>
  What every source may do to the configuration, as a list of field writes. \<open>written_\<dots>\<close>
  reads the last write to a field off such a list.
\<close>

datatype setting =
    SetAddress "string option" | SetPort u16 | SetLogLevel int | SetDebug bool
  | SetConfigFile "string option"

fun apply_setting :: "setting \<Rightarrow> app_config \<Rightarrow> app_config" where
  "apply_setting (SetAddress v) cfg = cfg\<lparr>address := v\<rparr>"
| "apply_setting (SetPort v) cfg = cfg\<lparr>port := v\<rparr>"
| "apply_setting (SetLogLevel v) cfg = cfg\<lparr>log_level := v\<rparr>"
| "apply_setting (SetDebug v) cfg = cfg\<lparr>debug := v\<rparr>"
| "apply_setting (SetConfigFile v) cfg = cfg\<lparr>config_file := v\<rparr>"

definition last_of :: "(setting \<Rightarrow> 'v option) \<Rightarrow> setting list \<Rightarrow> 'v option" where
  "last_of sel ss = fold (\<lambda>s acc. case sel s of None \<Rightarrow> acc | Some v \<Rightarrow> Some v) ss None"

definition written_address :: "setting list \<Rightarrow> string option option" where
  "written_address = last_of (\<lambda>s. case s of SetAddress v \<Rightarrow> Some v | _ \<Rightarrow> None)"

definition written_port :: "setting list \<Rightarrow> u16 option" where
  "written_port = last_of (\<lambda>s. case s of SetPort v \<Rightarrow> Some v | _ \<Rightarrow> None)"

definition written_log_level :: "setting list \<Rightarrow> int option" where
  "written_log_level = last_of (\<lambda>s. case s of SetLogLevel v \<Rightarrow> Some v | _ \<Rightarrow> None)"

definition written_debug :: "setting list \<Rightarrow> bool option" where
  "written_debug = last_of (\<lambda>s. case s of SetDebug v \<Rightarrow> Some v | _ \<Rightarrow> None)"

definition written_config_file :: "setting list \<Rightarrow> string option option" where
  "written_config_file = last_of (\<lambda>s. case s of SetConfigFile v \<Rightarrow> Some v | _ \<Rightarrow> None)"

definition orelse :: "'v option \<Rightarrow> 'v option \<Rightarrow> 'v option" where
  "orelse a b = (case a of None \<Rightarrow> b | Some v \<Rightarrow> Some v)"

definition or_default :: "'v option \<Rightarrow> 'v \<Rightarrow> 'v" where
  "or_default a d = (case a of None \<Rightarrow> d | Some v \<Rightarrow> v)"

lemma orelse_simps [simp]: "orelse None b = b" "orelse (Some v) b = Some v" "orelse a None = a"
  by (auto simp: orelse_def split: option.splits)

lemma or_default_simps [simp]: "or_default None d = d" "or_default (Some v) d = v"
  by (simp_all add: or_default_def)

lemma last_of_Nil [simp]: "last_of sel [] = None"
  by (simp add: last_of_def)

lemma last_of_snoc [simp]:
  "last_of sel (ss @ [s]) = (case sel s of None \<Rightarrow> last_of sel ss | Some v \<Rightarrow> Some v)"
  by (simp add: last_of_def split: option.splits)

lemma last_of_append: "last_of sel (ss @ ts) = orelse (last_of sel ts) (last_of sel ss)"
proof (induction ts rule: rev_induct)
  case (snoc t ts)
  then show ?case by (simp flip: append_assoc split: option.splits)
qed simp

lemma last_of_single: "last_of sel [s] = sel s"
  using last_of_snoc [of sel "[]" s] by (simp split: option.splits)

lemmas written_defs = written_address_def written_port_def written_log_level_def
  written_debug_def written_config_file_def

lemma fold_settings_fields:
  "address (fold apply_setting ss cfg) = or_default (written_address ss) (address cfg)"
  "port (fold apply_setting ss cfg) = or_default (written_port ss) (port cfg)"
  "log_level (fold apply_setting ss cfg) = or_default (written_log_level ss) (log_level cfg)"
  "debug (fold apply_setting ss cfg) = or_default (written_debug ss) (debug cfg)"
  "config_file (fold apply_setting ss cfg) = or_default (written_config_file ss) (config_file cfg)"
proof (induction ss rule: rev_induct)
  case (snoc s ss)
  { case 1 then show ?case using snoc by (cases s) (simp_all add: written_defs)
  next case 2 then show ?case using snoc by (cases s) (simp_all add: written_defs)
  next case 3 then show ?case using snoc by (cases s) (simp_all add: written_defs)
  next case 4 then show ?case using snoc by (cases s) (simp_all add: written_defs)
  next case 5 then show ?case using snoc by (cases s) (simp_all add: written_defs) }
qed (simp_all add: written_defs)

text \<open>
  The interface \<open>config_source.h\<close> promises: run on any configuration, a source with input
  \<open>i\<close> either ends the program (as \<open>--help\<close> does) or performs the writes \<open>writes i\<close>, whatever
  the configuration was.
\<close>

locale config_source =
  fixes apply_source :: "'i \<Rightarrow> app_config \<Rightarrow> app_config outcome"
    and writes :: "'i \<Rightarrow> setting list"
  assumes source_writes:
    "apply_source i cfg = Running cfg' \<Longrightarrow> cfg' = fold apply_setting (writes i) cfg"
begin

lemma source_fields:
  assumes "apply_source i cfg = Running cfg'"
  shows "address cfg' = or_default (written_address (writes i)) (address cfg)"
    and "port cfg' = or_default (written_port (writes i)) (port cfg)"
    and "log_level cfg' = or_default (written_log_level (writes i)) (log_level cfg)"
    and "debug cfg' = or_default (written_debug (writes i)) (debug cfg)"
    and "config_file cfg' = or_default (written_config_file (writes i)) (config_file cfg)"
  using source_writes [OF assms] by (simp_all add: fold_settings_fields)

lemma source_idempotent:
  assumes "apply_source i cfg = Running c1" and "apply_source i c1 = Running c2"
  shows "c2 = c1"
  using source_fields [OF assms(1)] source_fields [OF assms(2)]
  by (cases c1; cases c2)
     (simp add: or_default_def split: option.splits)

end

subsection \<open>The sources meet it\<close>

definition env_writes :: "sysenv \<Rightarrow> setting list" where
  "env_writes e =
     (case env_var e ''CONFIG_DEMO_ADDRESS'' of None \<Rightarrow> [] | Some v \<Rightarrow> [SetAddress (Some v)]) @
     (case env_var e ''CONFIG_DEMO_PORT'' of None \<Rightarrow> [] | Some v \<Rightarrow> [SetPort (to_u16 (c_atoi v))]) @
     (case env_var e ''CONFIG_DEMO_LOG_LEVEL'' of None \<Rightarrow> [] | Some v \<Rightarrow> [SetLogLevel (c_atoi v)]) @
     (case env_var e ''CONFIG_DEMO_DEBUG'' of None \<Rightarrow> [] | Some v \<Rightarrow> [SetDebug (parse_bool v)]) @
     (case env_var e ''CONFIG_DEMO_CONFIG'' of None \<Rightarrow> [] | Some v \<Rightarrow> [SetConfigFile (Some v)])"

definition line_writes :: "string \<Rightarrow> setting list" where
  "line_writes line = (case parse_line line of None \<Rightarrow> [] | Some (key, v) \<Rightarrow>
     if key = ''address'' then [SetAddress (Some v)]
     else if key = ''port'' then [SetPort (to_u16 (c_atoi v))]
     else if key = ''log_level'' then [SetLogLevel (c_atoi v)]
     else if key = ''debug'' then [SetDebug (parse_bool v)]
     else [])"

definition text_writes :: "string \<Rightarrow> setting list" where
  "text_writes text = concat (map line_writes (fgets_lines MAX_LINE_LENGTH text))"

definition event_writes :: "opt_event \<Rightarrow> setting list" where
  "event_writes ev = (case ev of (opt, optarg) \<Rightarrow>
     if opt = CHR ''s'' then [SetAddress optarg]
     else if opt = CHR ''p'' then
       (case optarg of None \<Rightarrow> [] | Some v \<Rightarrow> [SetPort (to_u16 (c_atoi v))])
     else if opt = CHR ''l'' then
       (case optarg of None \<Rightarrow> [] | Some v \<Rightarrow> [SetLogLevel (c_atoi v)])
     else if opt = CHR ''d'' then [SetDebug True]
     else if opt = CHR ''c'' then [SetConfigFile optarg]
     else [])"

definition cli_writes :: "sysenv \<times> string list \<Rightarrow> setting list" where
  "cli_writes i = (case i of (e, argv) \<Rightarrow>
     concat (map event_writes (getopt_long (env_var e ''POSIXLY_CORRECT'' \<noteq> None) (tl argv))))"

lemma config_set_string_simp [simp]: "config_set_string f v = v"
  by (simp add: config_set_string_def split: option.splits)

lemma apply_env_config_writes:
  "apply_env_config e cfg = fold apply_setting (env_writes e) cfg"
  by (simp add: apply_env_config_def env_writes_def Let_def split: option.splits)

lemma apply_line_writes: "apply_line l cfg = fold apply_setting (line_writes l) cfg"
  by (simp add: apply_line_def line_writes_def apply_key_value_def split: option.splits prod.splits)

lemma apply_lines_writes:
  "fold apply_line ls cfg = fold apply_setting (concat (map line_writes ls)) cfg"
  by (induction ls arbitrary: cfg) (simp_all add: apply_line_writes)

lemma cli_event_writes:
  "cli_event ev cfg = Running cfg' \<Longrightarrow> cfg' = fold apply_setting (event_writes ev) cfg"
  by (auto simp: cli_event_def event_writes_def split: prod.splits if_splits option.splits)

lemma cli_events_writes:
  "cli_events evs cfg = Running cfg' \<Longrightarrow>
     cfg' = fold apply_setting (concat (map event_writes evs)) cfg"
  by (induction evs arbitrary: cfg) (auto simp: bind_outcome_Running_iff dest!: cli_event_writes)

interpretation env_source: config_source "\<lambda>e cfg. Running (apply_env_config e cfg)" env_writes
  by unfold_locales (simp add: apply_env_config_writes)

interpretation text_source: config_source
  "\<lambda>text cfg. Running (fold apply_line (fgets_lines MAX_LINE_LENGTH text) cfg)" text_writes
  by unfold_locales (simp add: apply_lines_writes text_writes_def)

interpretation cli_source: config_source "\<lambda>(e, argv) cfg. apply_cli_args e argv cfg" cli_writes
  by unfold_locales (auto simp: apply_cli_args_def cli_writes_def dest: cli_events_writes)

section \<open>Lemmas on the whole load\<close>

abbreviation (input) default_config :: app_config where
  "default_config \<equiv> \<lparr>address = Some ''localhost'', port = 8080, log_level = 3, debug = False,
                     config_file = None\<rparr>"

definition selected_file :: "sysenv \<Rightarrow> string list \<Rightarrow> string option" where
  "selected_file e argv =
     config_file (snd (find_config_file e (apply_cli_args_for_config_file e argv default_config)))"

definition file_writes :: "sysenv \<Rightarrow> string list \<Rightarrow> setting list" where
  "file_writes e argv = (case selected_file e argv of None \<Rightarrow> [] | Some path \<Rightarrow>
     (case file_content e path of None \<Rightarrow> [] | Some text \<Rightarrow> text_writes text))"

definition same_options :: "app_config \<Rightarrow> app_config \<Rightarrow> bool" where
  \<comment> \<open>equal but for the path of the configuration file\<close>
  "same_options a b \<longleftrightarrow> a\<lparr>config_file := None\<rparr> = b\<lparr>config_file := None\<rparr>"

lemma same_options_iff:
  "same_options a b \<longleftrightarrow>
     address a = address b \<and> port a = port b \<and> log_level a = log_level b \<and> debug a = debug b"
  by (cases a; cases b) (simp add: same_options_def)

lemma apply_defaults_init [simp]: "apply_defaults (config_init cfg) = default_config"
  by (simp add: apply_defaults_def config_init_def Let_def)

lemma config_file_arg_frame: "same_options (config_file_arg e argv i cfg) cfg"
  by (simp add: config_file_arg_def same_options_iff)

lemma prescan_frame: "same_options (apply_cli_args_for_config_file e argv cfg) cfg"
proof -
  have "same_options (fold (config_file_arg e argv) is c) c" for "is" c
    using config_file_arg_frame
    by (induction "is" arbitrary: c) (simp_all add: same_options_iff)
  then show ?thesis by (simp add: apply_cli_args_for_config_file_def)
qed

lemma find_config_file_frame: "same_options (snd (find_config_file e cfg)) cfg"
  by (simp add: find_config_file_def same_options_iff Let_def split: option.splits)

lemma find_config_file_ret:
  "fst (find_config_file e cfg) = 0 \<longleftrightarrow> config_file (snd (find_config_file e cfg)) \<noteq> None"
  by (auto simp: find_config_file_def Let_def split: option.splits)

lemma apply_file_config_writes:
  "snd (apply_file_config e cfg) =
     fold apply_setting
       (case config_file (snd (find_config_file e cfg)) of None \<Rightarrow> [] | Some path \<Rightarrow>
          (case file_content e path of None \<Rightarrow> [] | Some text \<Rightarrow> text_writes text))
       (snd (find_config_file e cfg))"
  using find_config_file_ret [of e cfg]
  by (auto simp: apply_file_config_def apply_lines_writes text_writes_def split: prod.splits option.splits)

lemma config_load_unfold:
  "config_load e argv cfg0 =
     apply_cli_args e argv (fold apply_setting (file_writes e argv @ env_writes e)
       (snd (find_config_file e (apply_cli_args_for_config_file e argv default_config))))"
  by (simp add: config_load_def Let_def apply_file_config_writes apply_env_config_writes
      file_writes_def selected_file_def)

lemma config_load_writes:
  assumes "config_load e argv cfg0 = Running cfg"
  shows "cfg = fold apply_setting (file_writes e argv @ env_writes e @ cli_writes (e, argv))
       (snd (find_config_file e (apply_cli_args_for_config_file e argv default_config)))"
  using assms cli_source.source_writes [of "(e, argv)"]
  by (simp add: config_load_unfold)

lemma config_load_base:
  "same_options (snd (find_config_file e (apply_cli_args_for_config_file e argv default_config)))
     default_config"
  using find_config_file_frame prescan_frame by (simp add: same_options_iff)

lemma written_append:
  "written_address (ss @ ts) = orelse (written_address ts) (written_address ss)"
  "written_port (ss @ ts) = orelse (written_port ts) (written_port ss)"
  "written_log_level (ss @ ts) = orelse (written_log_level ts) (written_log_level ss)"
  "written_debug (ss @ ts) = orelse (written_debug ts) (written_debug ss)"
  "written_config_file (ss @ ts) = orelse (written_config_file ts) (written_config_file ss)"
  by (simp_all add: written_defs last_of_append)

lemma orelse_assoc: "orelse (orelse a b) c = orelse a (orelse b c)"
  by (cases a) simp_all

subsection \<open>getopt_long never hands out an option without its argument\<close>

definition event_ok :: "opt_event \<Rightarrow> bool" where
  "event_ok ev \<longleftrightarrow> (fst ev \<in> {CHR ''s'', CHR ''p'', CHR ''l''} \<longrightarrow> snd ev \<noteq> None)"

lemma short_lookup_arg:
  "short_lookup short_options c = Some b \<Longrightarrow>
     b = (c \<in> {CHR ''s'', CHR ''p'', CHR ''l''})"
  by (auto simp: short_options_def split: if_splits)

lemma long_lookup_arg:
  assumes "long_lookup name = Some (b, v)"
  shows "v \<in> {CHR ''s'', CHR ''p'', CHR ''l''} \<longrightarrow> b"
proof -
  have "(n, b, v) \<in> set long_options" if "filter P long_options = (n, b, v) # r" for P n r
    using that by (metis list.set_intros(1) mem_Collect_eq set_filter)
  moreover have "\<exists>P n r. filter P long_options = (n, b, v) # r"
    using assms unfolding long_lookup_def by (fastforce split: list.splits prod.splits)
  ultimately show ?thesis by (auto simp: long_options_def)
qed

lemma getopt_cluster_ok: "\<forall>ev \<in> set (fst (getopt_cluster cs args)). event_ok ev"
  by (induction cs args rule: getopt_cluster.induct)
     (auto simp: event_ok_def dest: short_lookup_arg
       split: option.splits bool.splits prod.splits list.splits if_splits)

lemma getopt_long_arg_ok: "event_ok (fst (getopt_long_arg body args))"
  by (auto simp: getopt_long_arg_def event_ok_def Let_def dest: long_lookup_arg
      split: option.splits bool.splits prod.splits list.splits if_splits)

lemma getopt_long_ok: "\<forall>ev \<in> set (getopt_long posix args). event_ok ev"
proof (induction posix args rule: getopt_long.induct)
  case (2 posix a args)
  note IH = "2.IH"(1) [OF _ _ refl] "2.IH"(2) [OF _ _ _ refl] "2.IH"(3)
  show ?case
    using IH getopt_cluster_ok [of "drop 1 a" args] getopt_long_arg_ok [of "drop 2 a" args]
    by (simp add: Let_def ball_Un)
qed simp

lemma cli_events_ok: "\<forall>ev \<in> set evs. event_ok ev \<Longrightarrow> cli_events evs cfg \<noteq> Crashed"
proof (induction evs arbitrary: cfg)
  case (Cons ev evs)
  have "cli_event ev cfg \<noteq> Crashed" using Cons.prems
    by (cases ev; cases "snd ev") (simp_all add: cli_event_def event_ok_def)
  then show ?case using Cons by (cases "cli_event ev cfg") simp_all
qed simp

lemma cli_events_frame:
  "cli_events evs a = Running r \<Longrightarrow> same_options b a \<Longrightarrow>
     \<exists>r'. cli_events evs b = Running r' \<and> same_options r' r"
proof (induction evs arbitrary: a b)
  case (Cons ev evs)
  then obtain a' where a': "cli_event ev a = Running a'" "cli_events evs a' = Running r"
    by (auto simp: bind_outcome_Running_iff)
  with Cons.prems(2) have "\<exists>b'. cli_event ev b = Running b' \<and> same_options b' a'"
    by (auto simp: cli_event_def same_options_iff split: prod.splits option.splits if_splits)
  with a'(2) Cons.IH show ?case by (auto simp: bind_outcome_Running_iff)
qed simp

section \<open>Properties\<close>

text \<open>An environment with one configuration file, for the witnesses.\<close>

definition one_file_env :: sysenv where
  "one_file_env = \<lparr>env_var = (\<lambda>v. if v = ''CONFIG_DEMO_DEBUG'' then Some ''1'' else None),
     file_exists = (\<lambda>_. False),
     file_content = (\<lambda>p. if p = ''f'' then Some ''port=70'' else None), past_arg = (\<lambda>_. [])\<rparr>"

definition any_config :: app_config where
  "any_config = \<lparr>address = None, port = 0, log_level = 0, debug = False, config_file = None\<rparr>"

lemma load_port_option:
  "\<exists>cfg. config_load one_file_env [''p'', ''-p'', ''99''] any_config = Running cfg"
  by (simp add: config_load_unfold apply_cli_args_def one_file_env_def short_options_def cli_event_def)

subsection \<open>Which file is read, in terms of the arguments and the file system\<close>

definition path_args :: "sysenv \<Rightarrow> string list \<Rightarrow> string list" where
  \<comment> \<open>the paths the first pass finds: the argument after \<open>-c\<close>; for an argument that is just
     \<open>--config=\<close>, the string that begins one byte past its end\<close>
  "path_args e argv = concat (map (\<lambda>i.
     if argv ! i = ''-c'' \<and> i + 1 < length argv then [argv ! (i + 1)]
     else if argv ! i = ''--config='' then [past_arg e i] else []) [1..<length argv])"

definition loaded_file :: "sysenv \<Rightarrow> string list \<Rightarrow> string option" where
  "loaded_file e argv =
     (if path_args e argv \<noteq> [] then Some (last (path_args e argv))
      else if file_exists e ''/etc/config-demo.conf'' then Some ''/etc/config-demo.conf''
      else case env_var e ''HOME'' of None \<Rightarrow> None
        | Some home \<Rightarrow> let user = take 511 (home @ ''/.config/config-demo.conf'') in
            if file_exists e user then Some user else None)"

lemma strncmp_config:
  "CHR 0x00 \<notin> set a \<Longrightarrow> strncmp_eq a ''--config='' 10 \<longleftrightarrow> a = ''--config=''"
proof
  assume nul: "CHR 0x00 \<notin> set a" and eq: "strncmp_eq a ''--config='' 10"
  have t: "take 10 (a @ [CHR 0x00]) = ''--config='' @ [CHR 0x00]"
    using eq by (simp add: strncmp_eq_def)
  have "\<not> 10 \<le> length a"
  proof
    assume le: "10 \<le> length a"
    then have "take 10 a = ''--config='' @ [CHR 0x00]" using t by simp
    then have "CHR 0x00 \<in> set (take 10 a)" by simp
    then show False using nul by (auto dest: in_set_takeD)
  qed
  then show "a = ''--config=''" using t by simp
qed (simp add: strncmp_eq_def)

lemma prescan_path:
  assumes "\<forall>a \<in> set argv. CHR 0x00 \<notin> set a"
  shows "config_file (apply_cli_args_for_config_file e argv cfg) =
    (if path_args e argv = [] then config_file cfg else Some (last (path_args e argv)))"
proof -
  define found where "found i = (if argv ! i = ''-c'' \<and> i + 1 < length argv then [argv ! (i + 1)]
     else if argv ! i = ''--config='' then [past_arg e i] else [])" for i
  have one: "config_file (config_file_arg e argv i c) = (if found i = [] then config_file c else Some (last (found i)))"
    if "i < length argv" for i c
    using strncmp_config [of "argv ! i"] strncmp_config [of "''--config=''"] assms that
    by (simp add: config_file_arg_def found_def arg_plus_def)
  have "config_file (fold (config_file_arg e argv) is c) =
      (if concat (map found is) = [] then config_file c else Some (last (concat (map found is))))"
    if "\<forall>i \<in> set is. i < length argv" for "is" c
    using that by (induction "is" rule: rev_induct) (simp_all add: one)
  from this [of "[1..<length argv]"] show ?thesis
    by (simp add: apply_cli_args_for_config_file_def path_args_def found_def [abs_def])
qed

lemma selected_file_eq:
  assumes "\<forall>a \<in> set argv. CHR 0x00 \<notin> set a"
  shows "selected_file e argv = loaded_file e argv"
proof (cases "path_args e argv = []")
  case True
  then show ?thesis
    using prescan_path [OF assms, of e default_config]
    by (simp add: selected_file_def loaded_file_def find_config_file_def CONFIG_DEFAULT_CONFIG_FILE_def
        CONFIG_USER_CONFIG_FILE_def Let_def split: option.split)
next
  case False
  then show ?thesis
    using prescan_path [OF assms, of e default_config]
    by (simp add: selected_file_def loaded_file_def find_config_file_def)
qed

lemma file_never_names_path: "written_config_file (file_writes e argv) = None"
proof -
  have "written_config_file (concat (map line_writes ls)) = None" for ls
  proof (induction ls)
    case (Cons l ls)
    have "written_config_file (line_writes l) = None"
      by (simp add: line_writes_def written_defs last_of_single split: option.splits prod.splits)
    then show ?case using Cons by (simp add: written_append)
  qed (simp add: written_defs)
  then show ?thesis
    by (simp add: file_writes_def text_writes_def split: option.splits) (simp add: written_defs)
qed

lemma config_load_options:
  assumes "config_load e argv cfg0 = Running cfg"
  shows "address cfg = or_default (orelse (written_address (cli_writes (e, argv)))
           (orelse (written_address (env_writes e)) (written_address (file_writes e argv))))
           (Some ''localhost'')"
    and "port cfg = or_default (orelse (written_port (cli_writes (e, argv)))
           (orelse (written_port (env_writes e)) (written_port (file_writes e argv)))) 8080"
    and "log_level cfg = or_default (orelse (written_log_level (cli_writes (e, argv)))
           (orelse (written_log_level (env_writes e)) (written_log_level (file_writes e argv)))) 3"
    and "debug cfg = or_default (orelse (written_debug (cli_writes (e, argv)))
           (orelse (written_debug (env_writes e)) (written_debug (file_writes e argv)))) False"
    and "config_file cfg = or_default (orelse (written_config_file (cli_writes (e, argv)))
           (written_config_file (env_writes e))) (selected_file e argv)"
proof -
  have base: "same_options (snd (find_config_file e
      (apply_cli_args_for_config_file e argv default_config))) default_config"
    by (rule config_load_base)
  note sums = config_load_writes [OF assms] fold_settings_fields written_append orelse_assoc
  show "address cfg = or_default (orelse (written_address (cli_writes (e, argv)))
           (orelse (written_address (env_writes e)) (written_address (file_writes e argv))))
           (Some ''localhost'')"
    "port cfg = or_default (orelse (written_port (cli_writes (e, argv)))
           (orelse (written_port (env_writes e)) (written_port (file_writes e argv)))) 8080"
    "log_level cfg = or_default (orelse (written_log_level (cli_writes (e, argv)))
           (orelse (written_log_level (env_writes e)) (written_log_level (file_writes e argv)))) 3"
    "debug cfg = or_default (orelse (written_debug (cli_writes (e, argv)))
           (orelse (written_debug (env_writes e)) (written_debug (file_writes e argv)))) False"
    using base by (simp_all add: sums same_options_iff del: fold_append)
  show "config_file cfg = or_default (orelse (written_config_file (cli_writes (e, argv)))
           (written_config_file (env_writes e))) (selected_file e argv)"
    by (simp add: sums file_never_names_path flip: selected_file_def del: fold_append)
qed

lemma short_c_event:
  "\<not> prefix ''-'' path \<Longrightarrow> getopt_long b [''-c'', path] = [(CHR ''c'', None)]"
  by (cases path) (auto simp: short_options_def)

lemma long_config_event: "getopt_long b [''--config='' @ path] = [(CHR ''c'', Some path)]"
  by (simp add: getopt_long_arg_def long_lookup_def long_options_def)

lemma cli_writes_long_config:
  "cli_writes (e, [prog, ''--config='' @ path]) = [SetConfigFile (Some path)]"
  by (simp only: cli_writes_def prod.case list.sel long_config_event list.map concat.simps)
     (simp add: event_writes_def)

lemma short_c_path:
  assumes "\<not> prefix ''-'' path"
  shows "path_args e [prog, ''-c'', path] = [path]"
proof -
  have "[1..<length [prog, ''-c'', path]] = [1, 2]" by (simp add: upt_rec)
  then show ?thesis using assms by (auto simp: path_args_def)
qed

lemma long_config_path: "path \<noteq> [] \<Longrightarrow> path_args e [prog, ''--config='' @ path] = []"
  by (simp add: path_args_def upt_rec)

text \<open>
  C2: the documented priority, and the one option for which it fails. Whenever loading ends normally,
  address, port, log level and debug flag each have the value of the last write on the command
  line, else of the environment, else of the configuration file, else the built-in default. The file read
  is the one named by the last \<open>-c FILE\<close>, else the system's, else the user's; neither
  \<open>--config=FILE\<close> nor \<open>CONFIG_DEMO_CONFIG\<close> has a say in that. The path stored in the end is
  what the option parser writes, else the environment, else the file read: \<open>-c FILE\<close> reads \<open>FILE\<close>
  and stores NULL, \<open>--config=FILE\<close> stores \<open>FILE\<close> and reads what would be read without it.
\<close>
theorem config_load_priority:
  assumes "config_load e argv cfg0 = Running cfg" and "\<forall>a \<in> set argv. CHR 0x00 \<notin> set a"
  shows "address cfg = or_default (orelse (written_address (cli_writes (e, argv)))
           (orelse (written_address (env_writes e)) (written_address (file_writes e argv))))
           (Some ''localhost'') \<and>
         port cfg = or_default (orelse (written_port (cli_writes (e, argv)))
           (orelse (written_port (env_writes e)) (written_port (file_writes e argv)))) 8080 \<and>
         log_level cfg = or_default (orelse (written_log_level (cli_writes (e, argv)))
           (orelse (written_log_level (env_writes e)) (written_log_level (file_writes e argv)))) 3 \<and>
         debug cfg = or_default (orelse (written_debug (cli_writes (e, argv)))
           (orelse (written_debug (env_writes e)) (written_debug (file_writes e argv)))) False \<and>
         file_writes e argv = (case loaded_file e argv of None \<Rightarrow> [] | Some path \<Rightarrow>
           (case file_content e path of None \<Rightarrow> [] | Some text \<Rightarrow> text_writes text)) \<and>
         config_file cfg = or_default (orelse (written_config_file (cli_writes (e, argv)))
           (written_config_file (env_writes e))) (loaded_file e argv) \<and>
         (\<forall>prog path. argv = [prog, ''-c'', path] \<and> \<not> prefix ''-'' path \<longrightarrow>
            loaded_file e argv = Some path \<and> config_file cfg = None) \<and>
         (\<forall>prog path. argv = [prog, ''--config='' @ path] \<and> path \<noteq> [] \<longrightarrow>
            loaded_file e argv = loaded_file e [prog] \<and> config_file cfg = Some path)"
proof -
  note options = config_load_options [OF assms(1)]
  have sel: "selected_file e argv = loaded_file e argv" by (rule selected_file_eq [OF assms(2)])
  have short: "loaded_file e argv = Some path \<and> config_file cfg = None"
    if "argv = [prog, ''-c'', path]" "\<not> prefix ''-'' path" for prog path
  proof -
    have "cli_writes (e, argv) = [SetConfigFile None]"
      using short_c_event [OF that(2)] by (simp add: that(1) cli_writes_def event_writes_def)
    then have "config_file cfg = None"
      using options(5) by (simp add: written_defs last_of_single)
    moreover have "loaded_file e argv = Some path"
      using short_c_path [OF that(2), of e prog] by (simp add: that(1) loaded_file_def)
    ultimately show ?thesis by simp
  qed
  have long: "loaded_file e argv = loaded_file e [prog] \<and> config_file cfg = Some path"
    if "argv = [prog, ''--config='' @ path]" "path \<noteq> []" for prog path
  proof -
    have "cli_writes (e, argv) = [SetConfigFile (Some path)]"
      unfolding that(1) by (rule cli_writes_long_config)
    then have "config_file cfg = Some path"
      using options(5) by (simp add: written_defs last_of_single)
    moreover have "path_args e [prog] = []" by (simp add: path_args_def)
    then have "loaded_file e argv = loaded_file e [prog]"
      using long_config_path [OF that(2), of e prog] by (simp add: that(1) loaded_file_def)
    ultimately show ?thesis by simp
  qed
  show ?thesis
    by (intro conjI allI impI; (elim conjE)?)
       (use options sel short long in \<open>simp_all add: file_writes_def\<close>)
qed

theorem config_load_priority_witness:
  "(\<exists>cfg. config_load one_file_env [''p'', ''-p'', ''99''] any_config = Running cfg \<and>
     port cfg = 99 \<and> log_level cfg = 3 \<and> debug cfg) \<and>
   (\<exists>cfg. config_load one_file_env [''p'', ''-c'', ''f''] any_config = Running cfg \<and> config_file cfg = None)"
proof -
  obtain cfg where run: "config_load one_file_env [''p'', ''-p'', ''99''] any_config = Running cfg"
    using load_port_option by blast
  have cli: "cli_writes (one_file_env, [''p'', ''-p'', ''99'']) = [SetPort 99]"
    by (simp add: cli_writes_def one_file_env_def short_options_def event_writes_def c_atoi_def
        c_strtol_def ltrim_def scan_sign_def dec_val_def digit_val_def c_isspace_def c_isdigit_def to_u16_def)
  have env: "env_writes one_file_env = [SetDebug True]"
    by (simp add: env_writes_def one_file_env_def parse_bool_def)
  have none: "file_writes one_file_env [''p'', ''-p'', ''99''] = []"
    by (simp add: file_writes_def selected_file_def one_file_env_def find_config_file_def
        apply_cli_args_for_config_file_def config_file_arg_def strncmp_eq_def upt_rec)
  have "port cfg = 99" "log_level cfg = 3" "debug cfg"
    using config_load_priority [OF run]
    unfolding cli env none by (simp_all add: written_defs last_of_single)
  with run have first: "\<exists>cfg. config_load one_file_env [''p'', ''-p'', ''99''] any_config = Running cfg \<and>
     port cfg = 99 \<and> log_level cfg = 3 \<and> debug cfg" by blast
  obtain c2 where run2: "config_load one_file_env [''p'', ''-c'', ''f''] any_config = Running c2"
    by (simp add: config_load_unfold apply_cli_args_def cli_event_def short_c_event del: getopt_long.simps)
  have "\<forall>a \<in> set [''p'', ''-c'', ''f'']. CHR 0x00 \<notin> set a" by simp
  note all = config_load_priority [OF run2 this]
  have "config_file c2 = None"
    using all [THEN conjunct2, THEN conjunct2, THEN conjunct2, THEN conjunct2, THEN conjunct2,
        THEN conjunct2, THEN conjunct1, rule_format, of "''p''" "''f''"] by simp
  with run2 first show ?thesis by blast
qed

text \<open>
  loading never dereferences a NULL \<open>optarg\<close>: it yields a configuration or, on \<open>--help\<close>,
  ends the program with status 0.
\<close>
theorem config_load_no_crash:
  "config_load e argv cfg0 = Exited 0 \<or> (\<exists>cfg. config_load e argv cfg0 = Running cfg)"
proof -
  have exits: "cli_events evs c = Exited n \<Longrightarrow> n = 0" for evs c n
  proof (induction evs arbitrary: c)
    case (Cons ev evs)
    then show ?case
      by (cases "cli_event ev c")
         (auto simp: cli_event_def split: prod.splits option.splits if_splits)
  qed simp
  have "cli_events (getopt_long b (tl argv)) c \<noteq> Crashed" for b c
    by (rule cli_events_ok [OF getopt_long_ok])
  then show ?thesis
    unfolding config_load_unfold apply_cli_args_def
    by (metis exits outcome.exhaust)
qed

text \<open>
  C27: a well-formed line \<open>key = value\<close>, with any white space around the two and the line's
  newline, parses to exactly that key and value.
\<close>
theorem parse_line_roundtrip:
  assumes "\<forall>c \<in> set (w1 @ w2 @ w3 @ w4). c_isspace c"
    and "\<forall>c \<in> set key. \<not> c_isspace c \<and> c \<noteq> CHR ''='' \<and> c \<noteq> CHR 0x00"
    and "\<forall>c \<in> set val. \<not> c_isspace c \<and> c \<noteq> CHR 0x00"
    and "key \<noteq> []" and "hd key \<noteq> CHR ''#''" and "hd key \<noteq> CHR '';''"
    and "length (w1 @ key @ w2 @ ''='' @ w3 @ val @ w4) < MAX_LINE_LENGTH"
  shows "parse_line (w1 @ key @ w2 @ ''='' @ w3 @ val @ w4) = Some (key, val)"
proof -
  let ?line = "w1 @ key @ w2 @ ''='' @ w3 @ val @ w4"
  have sp: "c_isspace c \<Longrightarrow> c \<noteq> CHR ''='' \<and> c \<noteq> CHR 0x00" for c
    by (auto simp: c_isspace_def Let_def)
  have "\<forall>c \<in> set ?line. c \<noteq> CHR 0x00"
    using assms(1-3) sp by fastforce
  then have cstr: "c_str ?line = ?line"
    unfolding c_str_def by (simp only: takeWhile_eq_all_conv)
  obtain k ks where key: "key = k # ks" using assms(4) by (cases key) auto
  have trimmed: "ltrim ?line = key @ w2 @ ''='' @ w3 @ val @ w4"
    using assms(1,2) ltrim_append_space [of w1 "key @ w2 @ ''='' @ w3 @ val @ w4"]
    by (simp add: key ltrim_def)
  have noeq: "\<forall>c \<in> set (key @ w2). c \<noteq> CHR ''=''"
    using assms(1,2) sp by auto
  have tw: "takeWhile (\<lambda>c. c \<noteq> CHR ''='') (key @ w2 @ ''='' @ r) = key @ w2"
    and dw: "dropWhile (\<lambda>c. c \<noteq> CHR ''='') (key @ w2 @ ''='' @ r) = ''='' @ r" for r
    using noeq takeWhile_append2 [of "key @ w2" "\<lambda>c. c \<noteq> CHR ''=''" "''='' @ r"]
      dropWhile_all_append [of "key @ w2" "\<lambda>c. c \<noteq> CHR ''=''" "''='' @ r"]
    by simp_all
  have rkey: "rtrim (key @ w2) = key"
    using assms(1,2) rtrim_append_space [of w2 key] rtrim_id [of key] by simp
  have val_start: "ltrim (w3 @ val @ w4) = (if val = [] then [] else val @ w4)"
    using assms(1,3) ltrim_append_space [of w3 "val @ w4"]
    by (cases val) (simp_all add: ltrim_def)
  have rval: "rtrim (take (MAX_LINE_LENGTH - 1) (ltrim (w3 @ val @ w4))) = val"
    using assms(1,3,7) rtrim_append_space [of w4 val] rtrim_id [of val]
    by (simp add: val_start)
  show ?thesis
    unfolding parse_line_def Let_def cstr trimmed tw dw
    using assms(5,6) rkey rval by (simp add: key)
qed

theorem parse_line_roundtrip_witness:
  "parse_line ('' port ='' @ ''  8080'' @ [CHR 0x0A]) = Some (''port'', ''8080'')"
proof -
  have l: "length ('' '' @ ''port'' @ '' '' @ ''='' @ ''  '' @ ''8080'' @ [CHR 0x0A]) < MAX_LINE_LENGTH"
    by (simp add: MAX_LINE_LENGTH_def)
  show ?thesis
    using parse_line_roundtrip [of "'' ''" "'' ''" "''  ''" "[CHR 0x0A]" "''port''" "''8080''", OF _ _ _ _ _ _ l]
    by (simp add: c_isspace_def)
qed

text \<open>
  \<open>--config=FILE\<close> is documented, but the pass that looks for the configuration file compares
  ten characters of the nine in \<open>--config=\<close>, its NUL included, and so never recognises it: with
  no other file around, nothing of \<open>FILE\<close> is read, whatever it holds, while the reported path is
  \<open>FILE\<close>.
\<close>
theorem long_config_option_not_loaded:
  assumes "path \<noteq> []" and "CHR 0x00 \<notin> set path" and "\<forall>p. \<not> file_exists e p"
    and "config_load e [prog, ''--config='' @ path] cfg0 = Running cfg"
  shows "config_file cfg = Some path \<and>
         port cfg = or_default (written_port (env_writes e)) 8080 \<and>
         address cfg = or_default (written_address (env_writes e)) (Some ''localhost'')"
proof -
  let ?argv = "[prog, ''--config='' @ path]"
  have pre: "apply_cli_args_for_config_file e ?argv c = c" for c
    using assms(1,2)
    by (cases path) (auto simp: apply_cli_args_for_config_file_def config_file_arg_def strncmp_eq_def)
  then have sel: "selected_file e ?argv = None"
    using assms(3) by (simp add: selected_file_def find_config_file_def Let_def split: option.splits)
  then have nofile: "file_writes e ?argv = []"
    by (simp add: file_writes_def)
  have cli: "cli_writes (e, ?argv) = [SetConfigFile (Some path)]"
    by (rule cli_writes_long_config)
  from config_load_writes [OF assms(4)] have "config_file cfg = Some path"
    unfolding cli by simp
  with config_load_options(1,2) [OF assms(4)] show ?thesis
    unfolding cli nofile by (simp add: written_defs last_of_single)
qed

theorem long_config_option_not_loaded_witness:
  "\<exists>cfg. config_load one_file_env [''p'', ''--config='' @ ''f''] any_config = Running cfg \<and>
     config_file cfg = Some ''f'' \<and> port cfg = 8080"
proof -
  have "\<exists>cfg. config_load one_file_env [''p'', ''--config='' @ ''f''] any_config = Running cfg"
    by (simp add: config_load_unfold apply_cli_args_def one_file_env_def getopt_long_arg_def
        long_lookup_def long_options_def cli_event_def)
  then obtain cfg where run: "config_load one_file_env [''p'', ''--config='' @ ''f''] any_config = Running cfg"
    by blast
  have "written_port (env_writes one_file_env) = None"
    by (simp add: env_writes_def one_file_env_def written_defs last_of_single)
  with long_config_option_not_loaded [OF _ _ _ run] run show ?thesis
    by (simp add: one_file_env_def)
qed

text \<open>
  with \<open>-c FILE\<close> the settings of \<open>FILE\<close> are loaded, but the second pass parses \<open>c\<close> as an
  option without argument and resets the stored path to NULL, so the program reports no file.
\<close>
theorem short_config_option_forgets_path:
  assumes "\<not> prefix ''-'' path" and "file_content e path = Some text"
  shows "\<exists>cfg. config_load e [prog, ''-c'', path] cfg0 = Running cfg \<and> config_file cfg = None \<and>
    port cfg = or_default (orelse (written_port (env_writes e)) (written_port (text_writes text))) 8080"
proof -
  let ?argv = "[prog, ''-c'', path]"
  have two: "[1..<length ?argv] = [1, 2]" by (simp add: upt_rec)
  have ne: "path \<noteq> ''-c''" "path \<noteq> ''--config=''" using assms(1) by auto
  then have "\<not> strncmp_eq path ''--config='' 10"
    using assms(1) by (cases path) (auto simp: strncmp_eq_def)
  with ne have pre: "apply_cli_args_for_config_file e ?argv c = c\<lparr>config_file := Some path\<rparr>" for c
    unfolding apply_cli_args_for_config_file_def two by (simp add: config_file_arg_def)
  then have sel: "file_writes e ?argv = text_writes text"
    using assms(2) by (simp add: file_writes_def selected_file_def find_config_file_def)
  note go = short_c_event [OF assms(1)]
  then obtain cfg where run: "config_load e ?argv cfg0 = Running cfg"
    by (simp add: config_load_unfold apply_cli_args_def cli_event_def)
  have cli: "cli_writes (e, ?argv) = [SetConfigFile None]"
    using go by (simp add: cli_writes_def event_writes_def)
  from config_load_writes [OF run] have "config_file cfg = None"
    unfolding cli by simp
  with run config_load_options(2) [OF run] show ?thesis
    unfolding cli sel by (simp add: written_defs last_of_single)
qed

theorem short_config_option_forgets_path_witness:
  "\<exists>cfg. config_load one_file_env [''p'', ''-c'', ''f''] any_config = Running cfg \<and>
     config_file cfg = None \<and> port cfg = 70"
proof -
  have "written_port (env_writes one_file_env) = None"
    by (simp add: env_writes_def one_file_env_def written_defs last_of_single)
  moreover have "text_writes ''port=70'' = [SetPort 70]"
    by code_simp
  then have "written_port (text_writes ''port=70'') = Some 70"
    by (simp add: written_defs last_of_single)
  ultimately show ?thesis
    using short_config_option_forgets_path [of "''f''" one_file_env "''port=70''" "''p''" any_config]
    by (simp add: one_file_env_def)
qed

text \<open>
  the path in \<open>CONFIG_DEMO_CONFIG\<close> is stored after the file has been read: whatever path it
  names, no option of that file takes part in the result.
\<close>
theorem env_config_path_not_loaded:
  assumes "config_load e argv cfg0 = Running c1"
    and "e' = e\<lparr>env_var := (env_var e)(''CONFIG_DEMO_CONFIG'' \<mapsto> path)\<rparr>"
  shows "\<exists>c2. config_load e' argv cfg0 = Running c2 \<and> same_options c2 c1"
proof -
  have arg: "config_file_arg e' = config_file_arg e"
    using assms(2) by (simp add: config_file_arg_def arg_plus_def fun_eq_iff)
  have find: "find_config_file e' = find_config_file e"
    using assms(2) by (intro ext) (simp add: find_config_file_def split: option.split)
  have pre: "apply_cli_args_for_config_file e' = apply_cli_args_for_config_file e"
    by (intro ext) (simp add: apply_cli_args_for_config_file_def arg)
  from find pre have files: "file_writes e' argv = file_writes e argv"
    using assms(2) by (simp add: file_writes_def selected_file_def split: option.split)
  let ?c = "fold apply_setting (file_writes e argv) (snd (find_config_file e
    (apply_cli_args_for_config_file e argv default_config)))"
  let ?evs = "getopt_long (env_var e ''POSIXLY_CORRECT'' \<noteq> None) (tl argv)"
  have posix: "env_var e' ''POSIXLY_CORRECT'' = env_var e ''POSIXLY_CORRECT''"
    using assms(2) by simp
  have "same_options (fold apply_setting (env_writes e') c) (fold apply_setting (env_writes e) c)" for c
    using assms(2)
    by (simp add: env_writes_def same_options_iff fold_settings_fields written_append
        del: fold_append) (simp add: written_defs last_of_single split: option.splits)
  moreover have "cli_events ?evs (fold apply_setting (env_writes e) ?c) = Running c1"
    using assms(1) by (simp add: config_load_unfold apply_cli_args_def)
  moreover have "config_load e' argv cfg0 = cli_events ?evs (fold apply_setting (env_writes e') ?c)"
    unfolding config_load_unfold apply_cli_args_def files find pre posix by simp
  ultimately show ?thesis using cli_events_frame by simp
qed

theorem env_config_path_not_loaded_witness:
  "\<exists>c1 c2. config_load one_file_env [''p'', ''-p'', ''99''] any_config = Running c1 \<and>
     config_load (one_file_env\<lparr>env_var := (env_var one_file_env)(''CONFIG_DEMO_CONFIG'' \<mapsto> ''f'')\<rparr>)
       [''p'', ''-p'', ''99''] any_config = Running c2 \<and> same_options c2 c1"
proof -
  obtain c1 where run: "config_load one_file_env [''p'', ''-p'', ''99''] any_config = Running c1"
    using load_port_option by blast
  from env_config_path_not_loaded [OF run refl, of "''f''"] run show ?thesis by blast
qed

end
