(* ===== verification/Memdev.thy ===== *)
theory Memdev
  imports Machine
begin

text \<open>
  The character device \<open>kernel-module/memdev/memdev.c\<close>: every open file has a list of mapped
  regions, every region owns the pages it maps. The module's global state is the record
  \<open>memdev\<close>; each file operation, the VMA close callback and the module's init and exit functions
  are one definition each, with the results of the kernel calls they make as an argument. The
  build modelled has \<open>CONFIG_NUMA\<close> (without it the file does not compile, see the findings).
  The mutex \<open>dev_lock\<close> makes the list updates atomic, so each operation is one step.
\<close>

section \<open>State\<close>

datatype prot_type = PROT_CACHEABLE | PROT_WRITECOMBINE | PROT_UNCACHED

datatype pgprot = Pg_rw | Pg_rw_writecombine | Pg_rw_noncached

record mapped_region =
  r_pid :: int
  r_user_va :: u64
  r_size :: u64
  r_pages :: "nat list"
  r_npages :: u64

record memdev =
  loaded :: bool
  g_prot :: prot_type
  numa_enabled :: bool
  file_list :: "(nat \<times> mapped_region list) list"  \<comment> \<open>address of the \<open>file_state\<close>, its regions\<close>
  mapped_count :: u32           \<comment> \<open>the \<open>atomic_t\<close>, read as a signed number\<close>
  module_refs :: nat            \<comment> \<open>references taken by \<open>try_module_get\<close>\<close>
  pages_held :: "nat multiset"  \<comment> \<open>page references taken from the allocator, not yet freed\<close>
  bad_free :: bool              \<comment> \<open>a page was freed that the module did not hold\<close>
  stale_used :: bool            \<comment> \<open>an old value of an uncleared page array was taken for a page\<close>
  heap :: int                   \<comment> \<open>live blocks from \<open>kzalloc\<close> and \<open>kvmalloc_array\<close>\<close>
  preempt_depth :: nat          \<comment> \<open>\<open>get_cpu\<close> calls without \<open>put_cpu\<close>\<close>
  has_chrdev :: bool
  has_cdev :: bool
  has_class :: bool
  has_device :: bool

definition PAGE_SIZE :: u64 where "PAGE_SIZE = 4096"

section \<open>Helpers\<close>

definition MPOL_DEFAULT :: int where "MPOL_DEFAULT = 0"
definition MPOL_PREFERRED :: int where "MPOL_PREFERRED = 1"
definition MPOL_LOCAL :: int where "MPOL_LOCAL = 4"

definition get_cpu :: "memdev \<Rightarrow> memdev" where
  \<comment> \<open>disables preemption\<close>
  "get_cpu s = s\<lparr>preempt_depth := Suc (preempt_depth s)\<rparr>"

definition get_allocation_node :: "int option \<Rightarrow> int \<Rightarrow> memdev \<Rightarrow> int \<times> memdev" where
  \<comment> \<open>the policy's mode if there is a policy; the node of the running CPU\<close>
  "get_allocation_node policy cpu_node s =
     (let mode = (case policy of Some m \<Rightarrow> m | None \<Rightarrow> MPOL_DEFAULT) in
      if mode = MPOL_DEFAULT \<or> mode = MPOL_LOCAL \<or> mode = MPOL_PREFERRED
      then (cpu_node, get_cpu s)
      else (- EINVAL, s))"

fun get_pgprot :: "prot_type \<Rightarrow> pgprot" where
  "get_pgprot PROT_WRITECOMBINE = Pg_rw_writecombine"
| "get_pgprot PROT_UNCACHED = Pg_rw_noncached"
| "get_pgprot PROT_CACHEABLE = Pg_rw"

definition free_page :: "nat \<Rightarrow> memdev \<Rightarrow> memdev" where
  "free_page p s = (if p \<in># pages_held s then s\<lparr>pages_held := pages_held s - {#p#}\<rparr>
                    else s\<lparr>bad_free := True\<rparr>)"

definition free_mapped_region :: "mapped_region \<Rightarrow> memdev \<Rightarrow> memdev" where
  "free_mapped_region r s =
     (let s1 = fold (\<lambda>i. free_page (r_pages r ! i)) [0..<unat (r_npages r)] s
      in s1\<lparr>heap := heap s1 - 2, mapped_count := mapped_count s1 - 1\<rparr>)"

section \<open>open and release\<close>

record open_env =
  oe_get_ok :: bool     \<comment> \<open>\<open>try_module_get\<close>\<close>
  oe_alloc :: "nat option"  \<comment> \<open>\<open>kzalloc\<close>: the new block's address\<close>

definition memdev_open :: "open_env \<Rightarrow> memdev \<Rightarrow> int \<times> memdev" where
  "memdev_open e s =
     (if \<not> oe_get_ok e then (- EBUSY, s)
      else let s1 = s\<lparr>module_refs := Suc (module_refs s)\<rparr> in
        case oe_alloc e of
          None \<Rightarrow> (- ENOMEM, s1\<lparr>module_refs := module_refs s1 - 1\<rparr>)
        | Some addr \<Rightarrow> (0, s1\<lparr>heap := heap s1 + 1, file_list := (addr, []) # file_list s1\<rparr>))"

definition remove_file :: "nat \<Rightarrow> (nat \<times> mapped_region list) list \<Rightarrow> (nat \<times> mapped_region list) list" where
  "remove_file f fs = filter (\<lambda>(g, _). g \<noteq> f) fs"

definition memdev_release :: "nat option \<Rightarrow> memdev \<Rightarrow> int \<times> memdev" where
  \<comment> \<open>the argument is \<open>filp->private_data\<close>, \<open>None\<close> for NULL\<close>
  "memdev_release state s =
     (let s1 = (case state of
          None \<Rightarrow> s
        | Some f \<Rightarrow>
            let regions = (case map_of (file_list s) f of None \<Rightarrow> [] | Some rs \<Rightarrow> rs);
                t = fold free_mapped_region regions s
            in t\<lparr>file_list := remove_file f (file_list t), heap := heap t - 1\<rparr>)
      in (0, s1\<lparr>module_refs := module_refs s1 - 1\<rparr>))"

section \<open>mmap\<close>

record mmap_env =
  e_vm_start :: u64
  e_vm_end :: u64
  e_policy :: "int option"       \<comment> \<open>\<open>vma->vm_policy\<close> and its mode\<close>
  e_cpu_node :: int              \<comment> \<open>\<open>cpu_to_node(get_cpu())\<close>\<close>
  e_array :: "nat option list option"  \<comment> \<open>\<open>kvmalloc_array\<close>: the initial contents of the block\<close>
  e_fresh :: "nat list"          \<comment> \<open>pages the buddy allocator can give\<close>
  e_insert_ret :: int            \<comment> \<open>\<open>vm_insert_pages\<close>\<close>
  e_region_ok :: bool            \<comment> \<open>\<open>kzalloc\<close> of the region\<close>
  e_pid :: int                   \<comment> \<open>\<open>task_pid_nr(current->group_leader)\<close>\<close>

record vma_out =
  vm_page_prot :: "pgprot option"
  vm_close_set :: bool           \<comment> \<open>\<open>vma->vm_ops = &memdev_vm_ops\<close>\<close>

text \<open>
  The contract of \<open>alloc_pages_bulk_array_node\<close>: entries of the array that are not NULL are kept
  and counted, NULL entries are filled in order until no page is left. The result is the filled
  prefix of the array; its length is what the call returns.
\<close>

fun alloc_pages_bulk :: "nat option list \<Rightarrow> nat list \<Rightarrow> nat list" where
  "alloc_pages_bulk [] fresh = []"
| "alloc_pages_bulk (Some p # a) fresh = p # alloc_pages_bulk a fresh"
| "alloc_pages_bulk (None # a) [] = []"
| "alloc_pages_bulk (None # a) (p # ps) = p # alloc_pages_bulk a ps"

definition taken_pages :: "nat option list \<Rightarrow> nat list \<Rightarrow> nat multiset" where
  \<comment> \<open>the pages that left the allocator\<close>
  "taken_pages a fresh =
     mset (take (length (filter (\<lambda>x. x = None) (take (length (alloc_pages_bulk a fresh)) a))) fresh)"

definition stale_pages :: "nat option list \<Rightarrow> nat list \<Rightarrow> nat multiset" where
  \<comment> \<open>the old values of the array that are taken for pages\<close>
  "stale_pages a fresh =
     mset (List.map_filter id (take (length (alloc_pages_bulk a fresh)) a))"

definition err_free_pages :: "nat list \<Rightarrow> memdev \<Rightarrow> memdev" where
  \<comment> \<open>\<open>while (nr_allocated-- > 0) __free_page(pages[nr_allocated]); kvfree(pages);\<close>\<close>
  "err_free_pages pages s =
     (let t = fold free_page (rev pages) s in t\<lparr>heap := heap t - 1\<rparr>)"

definition map_pages_to_vma :: "vma_out \<Rightarrow> int \<Rightarrow> pgprot \<Rightarrow> int \<times> vma_out" where
  \<comment> \<open>the integer is the result of \<open>vm_insert_pages\<close>\<close>
  "map_pages_to_vma vma insert_ret prot =
     (let v = vma\<lparr>vm_page_prot := Some prot\<rparr>; ret = insert_ret in (ret, v))"

definition add_region :: "nat \<Rightarrow> mapped_region \<Rightarrow>
    (nat \<times> mapped_region list) list \<Rightarrow> (nat \<times> mapped_region list) list" where
  "add_region f r fs = map (\<lambda>(g, rs). if g = f then (g, r # rs) else (g, rs)) fs"

definition memdev_mmap :: "nat \<Rightarrow> mmap_env \<Rightarrow> memdev \<Rightarrow> int \<times> vma_out \<times> memdev" where
  "memdev_mmap f e s =
     (let size = e_vm_end e - e_vm_start e;
          vma0 = \<lparr>vm_page_prot = None, vm_close_set = False\<rparr> in
      if size = 0 \<or> size mod PAGE_SIZE \<noteq> 0 then (- EINVAL, vma0, s)
      else
        let npages = size div PAGE_SIZE;
            s1 = get_cpu s;
            (node, s2) = (if numa_enabled s1 then get_allocation_node (e_policy e) (e_cpu_node e) s1
                          else (e_cpu_node e, s1)) in
        if numa_enabled s1 \<and> node < 0 then (- EOPNOTSUPP, vma0, s2)
        else case e_array e of
          None \<Rightarrow> (- ENOMEM, vma0, s2)
        | Some array \<Rightarrow>
            let pages = alloc_pages_bulk (take (unat npages) array) (e_fresh e);
                s3 = s2\<lparr>heap := heap s2 + 1,
                        pages_held := pages_held s2 + taken_pages (take (unat npages) array) (e_fresh e),
                        stale_used := stale_used s2 \<or>
                          stale_pages (take (unat npages) array) (e_fresh e) \<noteq> {#}\<rparr> in
            if length pages \<noteq> unat npages then (- ENOMEM, vma0, err_free_pages pages s3)
            else
              let (ret, vma1) = map_pages_to_vma vma0 (e_insert_ret e) (get_pgprot (g_prot s3)) in
              if ret \<noteq> 0 then (ret, vma1, err_free_pages pages s3)
              else if \<not> e_region_ok e then (- ENOMEM, vma1, err_free_pages pages s3)
              else
                let region = \<lparr>r_pid = e_pid e, r_user_va = e_vm_start e, r_size = size,
                              r_pages = pages, r_npages = npages\<rparr> in
                (0, vma1\<lparr>vm_close_set := True\<rparr>,
                 s3\<lparr>heap := heap s3 + 1, file_list := add_region f region (file_list s3),
                    mapped_count := mapped_count s3 + 1\<rparr>))"

section \<open>The VMA close callback\<close>

definition region_matches :: "int \<Rightarrow> u64 \<Rightarrow> mapped_region \<Rightarrow> bool" where
  "region_matches pid user_va r \<longleftrightarrow> r_pid r = pid \<and> r_user_va r = user_va"

fun find_and_unlink :: "int \<Rightarrow> u64 \<Rightarrow> (nat \<times> mapped_region list) list \<Rightarrow>
    (mapped_region \<times> (nat \<times> mapped_region list) list) option" where
  "find_and_unlink pid va [] = None"
| "find_and_unlink pid va ((f, rs) # fs) =
     (case List.extract (region_matches pid va) rs of
        Some (ys, r, zs) \<Rightarrow> Some (r, (f, ys @ zs) # fs)
      | None \<Rightarrow> (case find_and_unlink pid va fs of
                   Some (r, fs') \<Rightarrow> Some (r, (f, rs) # fs')
                 | None \<Rightarrow> None))"

definition memdev_vma_close :: "int \<Rightarrow> u64 \<Rightarrow> memdev \<Rightarrow> memdev" where
  "memdev_vma_close pid user_va s =
     (case find_and_unlink pid user_va (file_list s) of
        Some (r, fs) \<Rightarrow> free_mapped_region r (s\<lparr>file_list := fs\<rparr>)
      | None \<Rightarrow> s)"

definition memdev_ioctl :: "u32 \<Rightarrow> u64 \<Rightarrow> memdev \<Rightarrow> int \<times> memdev" where
  "memdev_ioctl cmd arg s = (- ENOTTY, s)"

section \<open>Module init and exit\<close>

record init_env =
  i_attr :: string            \<comment> \<open>the module parameter \<open>attr\<close>\<close>
  i_nodes :: nat              \<comment> \<open>\<open>num_possible_nodes()\<close>\<close>
  i_chrdev :: int
  i_cdev :: int
  i_class :: int              \<comment> \<open>\<open>PTR_ERR\<close> of the result, 0 for a valid pointer\<close>
  i_device :: int

definition attr_prot :: "string \<Rightarrow> prot_type option" where
  "attr_prot a =
     (if a = ''normal_cacheable'' then Some PROT_CACHEABLE
      else if a = ''normal_noncacheable'' then Some PROT_WRITECOMBINE
      else if a = ''device_noncacheable'' then Some PROT_UNCACHED
      else None)"

definition memdev_init :: "init_env \<Rightarrow> memdev \<Rightarrow> int \<times> memdev" where
  "memdev_init e s =
     (let s0 = s\<lparr>numa_enabled := i_nodes e > 1\<rparr> in
      case attr_prot (i_attr e) of
        None \<Rightarrow> (- EINVAL, s0)
      | Some prot \<Rightarrow>
          let s1 = s0\<lparr>g_prot := prot\<rparr> in
          if i_chrdev e < 0 then (i_chrdev e, s1)
          else let s2 = s1\<lparr>has_chrdev := True\<rparr> in
            if i_cdev e < 0 then (i_cdev e, s2\<lparr>has_chrdev := False\<rparr>)
            else let s3 = s2\<lparr>has_cdev := True\<rparr> in
              if i_class e \<noteq> 0 then (i_class e, s3\<lparr>has_cdev := False, has_chrdev := False\<rparr>)
              else let s4 = s3\<lparr>has_class := True\<rparr> in
                if i_device e \<noteq> 0
                then (i_device e, s4\<lparr>has_class := False, has_cdev := False, has_chrdev := False\<rparr>)
                else (0, s4\<lparr>has_device := True, loaded := True\<rparr>))"

definition memdev_exit :: "memdev \<Rightarrow> memdev" where
  \<comment> \<open>the module is gone afterwards whichever way the function returns\<close>
  "memdev_exit s =
     (if 0 < sint (mapped_count s) then s\<lparr>loaded := False\<rparr>
      else
        let s1 = fold (\<lambda>(f, rs) t. (let u = fold free_mapped_region rs t
                                    in u\<lparr>file_list := remove_file f (file_list u), heap := heap u - 1\<rparr>))
                      (file_list s) s
        in s1\<lparr>has_device := False, has_class := False, has_cdev := False, has_chrdev := False,
              loaded := False\<rparr>)"

section \<open>Steps, invariant\<close>

definition mmap_env_ok :: "mmap_env \<Rightarrow> memdev \<Rightarrow> bool" where
  \<comment> \<open>the page allocator gives out free pages, each once; the page array may hold anything\<close>
  "mmap_env_ok e s \<longleftrightarrow>
     distinct (e_fresh e) \<and> list_all (\<lambda>p. p \<notin># pages_held s) (e_fresh e)"

inductive memdev_step :: "memdev \<Rightarrow> memdev \<Rightarrow> bool" where
  insmod: "\<not> loaded s \<Longrightarrow> memdev_step s (snd (memdev_init e s))"
| sys_open: "loaded s \<Longrightarrow> \<forall>a. oe_alloc e = Some a \<longrightarrow> a \<notin> fst ` set (file_list s) \<Longrightarrow>
     memdev_step s (snd (memdev_open e s))"
| sys_close: "loaded s \<Longrightarrow> f \<in> fst ` set (file_list s) \<Longrightarrow>
     memdev_step s (snd (memdev_release (Some f) s))"
| sys_mmap: "loaded s \<Longrightarrow> f \<in> fst ` set (file_list s) \<Longrightarrow> mmap_env_ok me s \<Longrightarrow>
     memdev_step s (snd (snd (memdev_mmap f me s)))"
| vma_close: "loaded s \<Longrightarrow> memdev_step s (memdev_vma_close pid va s)"
| sys_ioctl: "loaded s \<Longrightarrow> memdev_step s (snd (memdev_ioctl cmd arg s))"
| rmmod: "loaded s \<Longrightarrow> module_refs s = 0 \<Longrightarrow> memdev_step s (memdev_exit s)"

definition regions_of :: "(nat \<times> mapped_region list) list \<Rightarrow> mapped_region multiset" where
  "regions_of fs = mset (concat (map snd fs))"

abbreviation regions :: "memdev \<Rightarrow> mapped_region multiset" where
  "regions s \<equiv> regions_of (file_list s)"

definition region_pages :: "mapped_region multiset \<Rightarrow> nat multiset" where
  "region_pages M = (\<Sum>r\<in>#M. mset (r_pages r))"

definition region_ok :: "mapped_region \<Rightarrow> bool" where
  "region_ok r \<longleftrightarrow> length (r_pages r) = unat (r_npages r) \<and> r_size r = r_npages r * PAGE_SIZE
     \<and> r_npages r \<noteq> 0"

definition all_registered :: "bool \<Rightarrow> memdev \<Rightarrow> bool" where
  "all_registered b s \<longleftrightarrow>
     has_chrdev s = b \<and> has_cdev s = b \<and> has_class s = b \<and> has_device s = b"

definition pages_exact :: "memdev \<Rightarrow> bool" where
  \<comment> \<open>the module holds the pages of its regions, each owned once, and freed no other page\<close>
  "pages_exact s \<longleftrightarrow> pages_held s = region_pages (regions s) \<and>
     (\<forall>p. count (pages_held s) p \<le> 1) \<and> \<not> bad_free s"

definition memdev_inv :: "memdev \<Rightarrow> bool" where
  "memdev_inv s \<longleftrightarrow> distinct (map fst (file_list s)) \<and>
     module_refs s = length (file_list s) \<and> mapped_count s = word_of_nat (size (regions s)) \<and>
     heap s = int (length (file_list s)) + 2 * int (size (regions s)) \<and>
     pages_held s \<subseteq># region_pages (regions s) \<and> (\<not> stale_used s \<longrightarrow> pages_exact s) \<and>
     (\<forall>r \<in># regions s. region_ok r) \<and> (\<not> loaded s \<longrightarrow> file_list s = []) \<and>
     all_registered (loaded s) s"

definition memdev_boot :: "memdev \<Rightarrow> bool" where
  "memdev_boot s \<longleftrightarrow> \<not> loaded s \<and> file_list s = [] \<and> mapped_count s = 0 \<and> module_refs s = 0 \<and>
     pages_held s = {#} \<and> \<not> bad_free s \<and> \<not> stale_used s \<and> heap s = 0 \<and> all_registered False s"

subsection \<open>The lists\<close>

lemma regions_of_simps [simp]:
  "regions_of [] = {#}" "regions_of ((f, rs) # fs) = mset rs + regions_of fs"
  by (simp_all add: regions_of_def)

lemma region_pages_simps [simp]:
  "region_pages {#} = {#}" "region_pages (add_mset r M) = mset (r_pages r) + region_pages M"
  "region_pages (M + N) = region_pages M + region_pages N"
  by (simp_all add: region_pages_def)

lemma regions_of_add_region:
  "distinct (map fst fs) \<Longrightarrow> f \<in> fst ` set fs \<Longrightarrow>
     regions_of (add_region f r fs) = add_mset r (regions_of fs)"
proof (induction fs)
  case (Cons x fs)
  obtain g rs where x: "x = (g, rs)" by (cases x)
  have same: "f \<notin> fst ` set fs \<Longrightarrow> add_region f r fs = fs"
    by (induction fs) (auto simp: add_region_def)
  show ?case
    using Cons same by (cases "g = f") (auto simp: x add_region_def)
qed simp

lemma add_region_fst [simp]: "map fst (add_region f r fs) = map fst fs"
  by (induction fs) (auto simp: add_region_def)

lemma remove_file_notin: "f \<notin> fst ` set fs \<Longrightarrow> remove_file f fs = fs"
  by (induction fs) (auto simp: remove_file_def)

lemma regions_of_remove_file:
  "distinct (map fst fs) \<Longrightarrow> map_of fs f = Some rs \<Longrightarrow>
     regions_of fs = mset rs + regions_of (remove_file f fs) \<and>
     length fs = Suc (length (remove_file f fs))"
proof (induction fs)
  case (Cons x fs)
  obtain g qs where x: "x = (g, qs)" by (cases x)
  show ?case
    using Cons remove_file_notin [of f fs]
    by (cases "g = f") (auto simp: x remove_file_def)
qed simp

lemma find_and_unlink_Some:
  "find_and_unlink pid va fs = Some (r, fs') \<Longrightarrow>
     regions_of fs = add_mset r (regions_of fs') \<and> map fst fs' = map fst fs \<and>
     region_matches pid va r"
  by (induction pid va fs arbitrary: fs' rule: find_and_unlink.induct)
     (auto simp: extract_Some_iff split: option.splits)

lemma find_and_unlink_None:
  "find_and_unlink pid va fs = None \<longleftrightarrow> (\<forall>r \<in># regions_of fs. \<not> region_matches pid va r)"
  by (induction pid va fs rule: find_and_unlink.induct)
     (auto simp: extract_None_iff extract_Some_iff split: option.splits prod.splits)

lemma find_and_unlink_others:
  "find_and_unlink pid va fs = Some (r, fs') \<Longrightarrow> remove_file f fs' = remove_file f fs \<or>
     regions_of (remove_file f fs) = add_mset r (regions_of (remove_file f fs'))"
proof (induction pid va fs arbitrary: fs' rule: find_and_unlink.induct)
  case (2 pid va g rs fs)
  show ?case
  proof (cases "List.extract (region_matches pid va) rs")
    case None
    then obtain fs2 where "find_and_unlink pid va fs = Some (r, fs2)" "fs' = (g, rs) # fs2"
      using "2.prems" by (auto split: option.splits)
    then show ?thesis using "2.IH" [OF None] by (auto simp: remove_file_def)
  next
    case (Some x)
    then obtain ys zs where "rs = ys @ r # zs" "fs' = (g, ys @ zs) # fs"
      using "2.prems" by (cases x) (auto dest: extract_SomeE)
    then show ?thesis by (simp add: remove_file_def)
  qed
qed simp

lemma count_le_right: "\<forall>p. count (M + N) p \<le> 1 \<Longrightarrow> \<forall>p. count N p \<le> 1"
  by (metis add_leD2 count_union)

lemma map_fst_eq_length: "map fst a = map fst b \<Longrightarrow> length a = length b"
  by (metis length_map)

subsection \<open>Freeing\<close>

lemma fold_free_page:
  "fold free_page ps s = s\<lparr>pages_held := pages_held s - mset ps,
     bad_free := bad_free s \<or> \<not> mset ps \<subseteq># pages_held s\<rparr>"
proof (induction ps arbitrary: s)
  case (Cons p ps)
  have sub: "mset (p # ps) \<subseteq># pages_held s \<longleftrightarrow> p \<in># pages_held s \<and> mset ps \<subseteq># pages_held s - {#p#}"
    by (simp add: insert_subset_eq_iff)
  show ?case
  proof (cases "p \<in># pages_held s")
    case True
    then show ?thesis using Cons.IH sub by (simp add: free_page_def)
  next
    case False
    then have "pages_held s - mset (p # ps) = pages_held s - mset ps"
      by (simp add: diff_single_trivial flip: diff_add_mset_swap)
    then show ?thesis using Cons.IH sub False by (simp add: free_page_def)
  qed
qed simp

lemma fold_nth: "fold (\<lambda>i. f (xs ! i)) [0..<length xs] s = fold f xs s"
  by (metis (no_types, lifting) comp_apply fold_cong fold_map map_nth)

lemma free_mapped_region_ok:
  assumes "region_ok r"
  shows "free_mapped_region r s = s\<lparr>pages_held := pages_held s - mset (r_pages r),
    bad_free := bad_free s \<or> \<not> mset (r_pages r) \<subseteq># pages_held s,
    heap := heap s - 2, mapped_count := mapped_count s - 1\<rparr>"
  using assms fold_nth [of free_page "r_pages r" s]
  by (simp add: free_mapped_region_def region_ok_def fold_free_page)

lemma subset_two_steps:
  "M + N \<subseteq># H \<longleftrightarrow> M \<subseteq># H \<and> N \<subseteq># H - M" for M N H :: "'a multiset"
  by (metis add.commute mset_subset_eq_add_left subset_mset.le_diff_conv2 subset_mset.order_trans)

lemma fold_free_mapped_region:
  "list_all region_ok rs \<Longrightarrow>
     fold free_mapped_region rs s = s\<lparr>pages_held := pages_held s - region_pages (mset rs),
       bad_free := bad_free s \<or> \<not> region_pages (mset rs) \<subseteq># pages_held s,
       heap := heap s - 2 * int (length rs), mapped_count := mapped_count s - word_of_nat (length rs)\<rparr>"
proof (induction rs arbitrary: s)
  case (Cons r rs)
  then show ?case
    by (simp add: free_mapped_region_ok diff_diff_add_mset subset_two_steps)
qed simp

lemma bulk_split:
  "mset (alloc_pages_bulk a fresh) = stale_pages a fresh + taken_pages a fresh"
  by (induction a fresh rule: alloc_pages_bulk.induct)
     (simp_all add: stale_pages_def taken_pages_def map_filter_simps)

lemma taken_pages_fresh: "taken_pages a fresh \<subseteq># mset fresh"
  unfolding taken_pages_def by (metis append_take_drop_id mset_append mset_subset_eq_add_left)

subsection \<open>Every operation keeps the invariant\<close>

lemma memdev_invI:
  assumes "distinct (map fst (file_list s))"
    and "module_refs s = length (file_list s)" and "mapped_count s = word_of_nat (size (regions s))"
    and "heap s = int (length (file_list s)) + 2 * int (size (regions s))"
    and "pages_held s \<subseteq># region_pages (regions s)" and "\<not> stale_used s \<Longrightarrow> pages_exact s"
    and "\<forall>r \<in># regions s. region_ok r"
    and "\<not> loaded s \<longrightarrow> file_list s = []" and "all_registered (loaded s) s"
  shows "memdev_inv s"
  using assms by (simp add: memdev_inv_def)

lemma memdev_invD:
  assumes "memdev_inv s"
  shows "distinct (map fst (file_list s))"
    and "module_refs s = length (file_list s)" and "mapped_count s = word_of_nat (size (regions s))"
    and "heap s = int (length (file_list s)) + 2 * int (size (regions s))"
    and "pages_held s \<subseteq># region_pages (regions s)" and "\<not> stale_used s \<Longrightarrow> pages_exact s"
    and "\<forall>r \<in># regions s. region_ok r"
    and "\<not> loaded s \<longrightarrow> file_list s = []" and "all_registered (loaded s) s"
  using assms unfolding memdev_inv_def by blast+

lemma inv_init_op: "memdev_inv s \<Longrightarrow> \<not> loaded s \<Longrightarrow> memdev_inv (snd (memdev_init e s))"
  by (auto simp: memdev_inv_def pages_exact_def memdev_init_def all_registered_def Let_def split: option.splits)

lemma inv_open:
  "memdev_inv s \<Longrightarrow> loaded s \<Longrightarrow> \<forall>a. oe_alloc e = Some a \<longrightarrow> a \<notin> fst ` set (file_list s) \<Longrightarrow>
     memdev_inv (snd (memdev_open e s))"
  by (auto simp: memdev_inv_def pages_exact_def memdev_open_def all_registered_def Let_def split: option.splits)

text \<open>Taking the pages of one part of the regions away, with or without a stale page among them.\<close>

lemma give_back_subset:
  "H \<subseteq># M + N \<Longrightarrow> H - M \<subseteq># N" for H M N :: "'a multiset"
  by (simp add: subset_eq_diff_conv add.commute)

lemma give_back_exact:
  assumes "pages_exact s" and "region_pages (regions s) = P + region_pages (regions_of fs)"
    and "pages_held t = pages_held s - P" and "bad_free t \<longleftrightarrow> bad_free s \<or> \<not> P \<subseteq># pages_held s"
    and "file_list t = fs"
  shows "pages_exact t"
proof -
  have "\<forall>p. count (P + region_pages (regions_of fs)) p \<le> 1"
    using assms(1,2) unfolding pages_exact_def by metis
  then have "\<forall>p. count (region_pages (regions_of fs)) p \<le> 1" by (rule count_le_right)
  then show ?thesis using assms by (simp add: pages_exact_def)
qed

lemma release_eq:
  assumes "memdev_inv s" and "map_of (file_list s) f = Some rs"
  shows "snd (memdev_release (Some f) s) = s\<lparr>
     pages_held := pages_held s - region_pages (mset rs),
     bad_free := bad_free s \<or> \<not> region_pages (mset rs) \<subseteq># pages_held s,
     heap := heap s - 2 * int (length rs) - 1,
     mapped_count := mapped_count s - word_of_nat (length rs),
     file_list := remove_file f (file_list s), module_refs := module_refs s - 1\<rparr>"
proof -
  have "regions s = mset rs + regions_of (remove_file f (file_list s))"
    using regions_of_remove_file [OF memdev_invD(1) [OF assms(1)] assms(2)] by simp
  then have "list_all region_ok rs" using memdev_invD(7) [OF assms(1)] by (simp add: list_all_iff)
  then show ?thesis
    using assms(2) by (simp add: memdev_release_def fold_free_mapped_region Let_def)
qed

lemma inv_release:
  assumes inv: "memdev_inv s" and f: "f \<in> fst ` set (file_list s)" and "loaded s"
  shows "memdev_inv (snd (memdev_release (Some f) s))"
proof -
  obtain rs where rs: "map_of (file_list s) f = Some rs"
    using f by (metis map_of_eq_None_iff not_None_eq)
  have regs: "regions s = mset rs + regions_of (remove_file f (file_list s))"
    and len: "length (file_list s) = Suc (length (remove_file f (file_list s)))"
    using regions_of_remove_file [OF memdev_invD(1) [OF inv] rs] by simp_all
  have "distinct (map fst (remove_file f (file_list s)))"
    using memdev_invD(1) [OF inv] by (auto simp: remove_file_def distinct_map inj_on_def)
  moreover have "pages_exact (snd (memdev_release (Some f) s))" if "\<not> stale_used s"
    by (rule give_back_exact [OF memdev_invD(6) [OF inv that], where P = "region_pages (mset rs)"])
       (simp_all add: regs release_eq [OF inv rs])
  moreover have "pages_held s - region_pages (mset rs) \<subseteq># region_pages (regions_of (remove_file f (file_list s)))"
    using memdev_invD(5) [OF inv] unfolding regs region_pages_simps by (rule give_back_subset)
  ultimately show ?thesis
    by (intro memdev_invI)
       (use memdev_invD(2-4,7-9) [OF inv] regs len \<open>loaded s\<close> in
         \<open>simp_all add: all_registered_def release_eq [OF inv rs]\<close>)
qed

lemma close_eq:
  assumes "memdev_inv s" and found: "find_and_unlink pid va (file_list s) = Some (r, fs)"
  shows "memdev_vma_close pid va s = s\<lparr>file_list := fs,
    pages_held := pages_held s - mset (r_pages r),
    bad_free := bad_free s \<or> \<not> mset (r_pages r) \<subseteq># pages_held s,
    heap := heap s - 2, mapped_count := mapped_count s - 1\<rparr>"
proof -
  have "region_ok r" using find_and_unlink_Some [OF found] memdev_invD(7) [OF assms(1)] by simp
  then show ?thesis by (simp add: memdev_vma_close_def found free_mapped_region_ok)
qed

lemma inv_close:
  assumes inv: "memdev_inv s"
  shows "memdev_inv (memdev_vma_close pid va s)"
proof (cases "find_and_unlink pid va (file_list s)")
  case None
  then show ?thesis using inv by (simp add: memdev_vma_close_def)
next
  case (Some x)
  then obtain r fs where x: "find_and_unlink pid va (file_list s) = Some (r, fs)"
    by (cases x) auto
  from find_and_unlink_Some [OF x] have regs: "regions s = add_mset r (regions_of fs)"
    and fst: "map fst fs = map fst (file_list s)" by auto
  note eq = close_eq [OF inv x]
  have "pages_exact (memdev_vma_close pid va s)" if "\<not> stale_used s"
    by (rule give_back_exact [OF memdev_invD(6) [OF inv that], where P = "mset (r_pages r)"])
       (simp_all add: regs eq)
  moreover have "pages_held s - mset (r_pages r) \<subseteq># region_pages (regions_of fs)"
    using memdev_invD(5) [OF inv] unfolding regs region_pages_simps by (rule give_back_subset)
  moreover have empty: "fs = [] \<longleftrightarrow> file_list s = []" using fst by auto
  ultimately show ?thesis
    by (intro memdev_invI)
       (use memdev_invD(1-4,7-9) [OF inv] regs fst map_fst_eq_length [OF fst] in
         \<open>simp_all add: all_registered_def eq\<close>)
qed

lemma close_cases:
  assumes "memdev_inv s"
  shows "(memdev_vma_close pid va s = s) \<or> (\<exists>r fs. find_and_unlink pid va (file_list s) = Some (r, fs) \<and>
    file_list (memdev_vma_close pid va s) = fs \<and> loaded (memdev_vma_close pid va s) = loaded s \<and>
    stale_used (memdev_vma_close pid va s) = stale_used s)"
proof (cases "find_and_unlink pid va (file_list s)")
  case None
  then show ?thesis by (simp add: memdev_vma_close_def)
next
  case (Some x)
  then obtain r fs where x: "find_and_unlink pid va (file_list s) = Some (r, fs)" by (cases x) auto
  show ?thesis by (simp add: x close_eq [OF assms x])
qed

lemma closes_frame:
  assumes "memdev_inv s" "loaded s"
  shows "let t = fold (\<lambda>(pid, va). memdev_vma_close pid va) closes s in memdev_inv t \<and> loaded t \<and>
    stale_used t = stale_used s \<and> map fst (file_list t) = map fst (file_list s) \<and>
    regions_of (remove_file f (file_list t)) \<subseteq># regions_of (remove_file f (file_list s)) \<and>
    (\<forall>r \<in># regions_of (remove_file f (file_list s)). r \<notin># regions_of (remove_file f (file_list t)) \<longrightarrow>
       (\<exists>(pid, va) \<in> set closes. region_matches pid va r))"
  using assms
proof (induction closes arbitrary: s)
  case (Cons c cs)
  obtain pid va where c: "c = (pid, va)" by (cases c)
  let ?s = "memdev_vma_close pid va s" and ?others = "\<lambda>s. regions_of (remove_file f (file_list s))"
  have inv: "memdev_inv ?s" by (rule inv_close [OF Cons.prems(1)])
  have step: "loaded ?s" "stale_used ?s = stale_used s" "map fst (file_list ?s) = map fst (file_list s)"
    "?others ?s = ?others s \<or> (\<exists>r. region_matches pid va r \<and> ?others s = add_mset r (?others ?s))"
  proof -
    from close_cases [OF Cons.prems(1), of pid va]
    have "loaded ?s \<and> stale_used ?s = stale_used s \<and> map fst (file_list ?s) = map fst (file_list s) \<and>
      (?others ?s = ?others s \<or> (\<exists>r. region_matches pid va r \<and> ?others s = add_mset r (?others ?s)))"
    proof (elim disjE exE conjE)
      fix r fs
      assume found: "find_and_unlink pid va (file_list s) = Some (r, fs)" and fs: "file_list ?s = fs"
        "loaded ?s = loaded s" "stale_used ?s = stale_used s"
      from find_and_unlink_Some [OF found] find_and_unlink_others [OF found, of f] Cons.prems(2)
      show ?thesis unfolding fs by auto
    qed (simp add: Cons.prems)
    then show "loaded ?s" "stale_used ?s = stale_used s" "map fst (file_list ?s) = map fst (file_list s)"
      "?others ?s = ?others s \<or> (\<exists>r. region_matches pid va r \<and> ?others s = add_mset r (?others ?s))" by blast+
  qed
  define t where "t = fold (\<lambda>(pid, va). memdev_vma_close pid va) cs ?s"
  have ih: "memdev_inv t" "loaded t" "stale_used t = stale_used ?s" "map fst (file_list t) = map fst (file_list ?s)" "?others t \<subseteq># ?others ?s"
    "\<And>r. r \<in># ?others ?s \<Longrightarrow> r \<notin># ?others t \<Longrightarrow> \<exists>(pid, va) \<in> set cs. region_matches pid va r"
    using Cons.IH [OF inv step(1)] by (simp_all add: Let_def t_def)
  have "?others t \<subseteq># ?others s" using ih(5) step(4) by (auto intro: subset_mset.order_trans)
  moreover have "\<exists>(pid, va) \<in> set (c # cs). region_matches pid va r" if "r \<in># ?others s" "r \<notin># ?others t" for r
    using step(4) ih(6) [of r] that by (auto simp: c)
  moreover have "fold (\<lambda>(pid, va). memdev_vma_close pid va) (c # cs) s = t" by (simp add: t_def c)
  ultimately show ?case using ih(1-4) step(2,3) by (simp only: Let_def) blast
qed simp

lemma err_free_pages_eq:
  "err_free_pages pages s = s\<lparr>pages_held := pages_held s - mset pages,
     bad_free := bad_free s \<or> \<not> mset pages \<subseteq># pages_held s, heap := heap s - 1\<rparr>"
  by (simp add: err_free_pages_def fold_free_page)

text \<open>What \<open>mmap\<close> does, in three cases: it fails before the page array exists and changes nothing but
  the preemption depth; it fails later and has given back all the pages of the array, its own and the
  stale ones; or it adds one well-formed region made of both.\<close>

definition same_but_preempt :: "memdev \<Rightarrow> memdev \<Rightarrow> bool" where
  "same_but_preempt s t \<longleftrightarrow> t = s\<lparr>preempt_depth := preempt_depth t\<rparr>"

lemma get_allocation_node_frame:
  "get_allocation_node pol n s = (k, t) \<Longrightarrow> same_but_preempt s t"
  by (auto simp: get_allocation_node_def get_cpu_def same_but_preempt_def Let_def split: if_splits)

definition mmap_slots :: "mmap_env \<Rightarrow> nat option list" where
  \<comment> \<open>the part of the page array that \<open>mmap\<close> asks to be filled\<close>
  "mmap_slots e = (case e_array e of None \<Rightarrow> []
     | Some a \<Rightarrow> take (unat ((e_vm_end e - e_vm_start e) div PAGE_SIZE)) a)"

definition mmap_stale :: "mmap_env \<Rightarrow> nat multiset" where
  "mmap_stale e = stale_pages (mmap_slots e) (e_fresh e)"

definition mmap_taken :: "mmap_env \<Rightarrow> nat multiset" where
  "mmap_taken e = taken_pages (mmap_slots e) (e_fresh e)"

definition new_region :: "mmap_env \<Rightarrow> mapped_region" where
  "new_region e =
     \<lparr>r_pid = e_pid e, r_user_va = e_vm_start e, r_size = e_vm_end e - e_vm_start e,
      r_pages = alloc_pages_bulk (mmap_slots e) (e_fresh e),
      r_npages = (e_vm_end e - e_vm_start e) div PAGE_SIZE\<rparr>"

lemma new_region_pages: "mset (r_pages (new_region e)) = mmap_stale e + mmap_taken e"
  by (simp add: new_region_def bulk_split mmap_stale_def mmap_taken_def)

definition with_stale :: "mmap_env \<Rightarrow> memdev \<Rightarrow> memdev" where
  \<comment> \<open>the stale pages have been freed as if they were the module's\<close>
  "with_stale e s = s\<lparr>pages_held := pages_held s - mmap_stale e,
     bad_free := bad_free s \<or> \<not> mmap_stale e \<subseteq># pages_held s,
     stale_used := stale_used s \<or> mmap_stale e \<noteq> {#}\<rparr>"

lemma with_stale_none: "mmap_stale e = {#} \<Longrightarrow> with_stale e s = s"
  by (simp add: with_stale_def)

lemma memdev_mmap_cases:
  assumes "memdev_mmap f e s = (ret, v, t)"
  obtains (early) d where "ret \<noteq> 0" "t = s\<lparr>preempt_depth := d\<rparr>" "\<not> vm_close_set v"
  | (late) d where "ret \<noteq> 0" "t = with_stale e s\<lparr>preempt_depth := d\<rparr>" "\<not> vm_close_set v"
  | (ok) d where "ret = 0" "region_ok (new_region e)" "vm_close_set v"
      "vm_page_prot v = Some (get_pgprot (g_prot s))"
      "t = s\<lparr>heap := heap s + 2, pages_held := pages_held s + mmap_taken e,
             stale_used := stale_used s \<or> mmap_stale e \<noteq> {#},
             file_list := add_region f (new_region e) (file_list s),
             mapped_count := mapped_count s + 1, preempt_depth := d\<rparr>"
proof -
  let ?size = "e_vm_end e - e_vm_start e"
  let ?n = "unat (?size div PAGE_SIZE)"
  define s2 where "s2 = (if numa_enabled s
    then snd (get_allocation_node (e_policy e) (e_cpu_node e) (get_cpu s)) else get_cpu s)"
  have "same_but_preempt s s2"
    using get_allocation_node_frame [of "e_policy e" "e_cpu_node e" "get_cpu s"]
    by (cases "get_allocation_node (e_policy e) (e_cpu_node e) (get_cpu s)")
       (auto simp: s2_def same_but_preempt_def get_cpu_def split: if_splits)
  then obtain d where s2: "s2 = s\<lparr>preempt_depth := d\<rparr>" by (auto simp: same_but_preempt_def)
  define node where "node = (if numa_enabled s
    then fst (get_allocation_node (e_policy e) (e_cpu_node e) (get_cpu s)) else e_cpu_node e)"
  have numa: "numa_enabled (get_cpu s) = numa_enabled s" by (simp add: get_cpu_def)
  have pair: "(if numa_enabled s then get_allocation_node (e_policy e) (e_cpu_node e) (get_cpu s)
      else (e_cpu_node e, get_cpu s)) = (node, s2)"
    by (simp add: node_def s2_def)
  show thesis
  proof (cases "?size = 0 \<or> ?size mod PAGE_SIZE \<noteq> 0 \<or> numa_enabled s \<and> node < 0 \<or> e_array e = None")
    case True
    then have "ret \<noteq> 0 \<and> (t = s \<or> t = s2) \<and> \<not> vm_close_set v"
      using assms by (auto simp: memdev_mmap_def Let_def numa pair split: if_splits option.splits)
    then have "ret \<noteq> 0" "t = s\<lparr>preempt_depth := preempt_depth t\<rparr>" "\<not> vm_close_set v"
      by (auto simp: s2)
    then show thesis by (rule early)
  next
    case False
    then obtain a where a: "e_array e = Some a" by auto
    let ?a = "take ?n a"
    have slots: "mmap_slots e = ?a" by (simp add: mmap_slots_def a)
    define pages where "pages = alloc_pages_bulk ?a (e_fresh e)"
    have both: "mset pages = mmap_stale e + mmap_taken e"
      by (simp add: pages_def bulk_split mmap_stale_def mmap_taken_def slots)
    define s3 where "s3 = s2\<lparr>heap := heap s2 + 1, pages_held := pages_held s2 + mmap_taken e,
      stale_used := stale_used s2 \<or> mmap_stale e \<noteq> {#}\<rparr>"
    have err: "err_free_pages pages s3 = with_stale e s\<lparr>preempt_depth := d\<rparr>"
      by (simp add: err_free_pages_eq both s3_def s2 with_stale_def)
    have run: "memdev_mmap f e s =
      (if length pages \<noteq> ?n then (- ENOMEM, \<lparr>vm_page_prot = None, vm_close_set = False\<rparr>, err_free_pages pages s3)
       else let v1 = \<lparr>vm_page_prot = Some (get_pgprot (g_prot s3)), vm_close_set = False\<rparr> in
         if e_insert_ret e \<noteq> 0 then (e_insert_ret e, v1, err_free_pages pages s3)
         else if \<not> e_region_ok e then (- ENOMEM, v1, err_free_pages pages s3)
         else (0, v1\<lparr>vm_close_set := True\<rparr>, s3\<lparr>heap := heap s3 + 1,
           file_list := add_region f (new_region e) (file_list s3),
           mapped_count := mapped_count s3 + 1\<rparr>))"
      using False by (simp add: memdev_mmap_def Let_def numa pair a map_pages_to_vma_def new_region_def slots
          mmap_stale_def mmap_taken_def s3_def flip: pages_def)
    show thesis
    proof (cases "length pages \<noteq> ?n \<or> e_insert_ret e \<noteq> 0 \<or> \<not> e_region_ok e")
      case True
      then have "ret \<noteq> 0 \<and> t = err_free_pages pages s3 \<and> \<not> vm_close_set v"
        using assms by (auto simp: run Let_def split: if_splits)
      then show thesis using err by (intro late) auto
    next
      case succ: False
      have div: "?size = (?size div PAGE_SIZE) * PAGE_SIZE"
        using False div_mult_mod_eq [of ?size PAGE_SIZE] by simp
      have "region_ok (new_region e)"
        using False div succ by (auto simp: region_ok_def new_region_def slots pages_def)
      then show thesis
        using succ assms by (intro ok [of d]) (auto simp: run Let_def s3_def s2)
    qed
  qed
qed

lemma fresh_count:
  assumes ok: "mmap_env_ok e s" and le: "\<forall>p. count (pages_held s) p \<le> 1"
  shows "count (mmap_taken e) p + count (pages_held s) p \<le> 1"
proof -
  have "count (mmap_taken e) p \<le> count (mset (e_fresh e)) p"
    unfolding mmap_taken_def by (rule mset_subset_eq_count [OF taken_pages_fresh])
  moreover have "count (mset (e_fresh e)) p \<le> 1"
    using ok by (simp add: mmap_env_ok_def distinct_count_atmost_1)
  moreover have "count (mset (e_fresh e)) p = 0 \<or> count (pages_held s) p = 0"
    unfolding count_eq_zero_iff set_mset_mset using ok by (auto simp: mmap_env_ok_def list_all_iff)
  ultimately show ?thesis using spec [OF le, of p] by linarith
qed

lemma with_stale_held: "memdev_inv s \<Longrightarrow> pages_held (with_stale e s) \<subseteq># region_pages (regions s)"
  using memdev_invD(5) [of s] subset_mset.order_trans [OF diff_subset_eq_self]
  by (simp add: with_stale_def)

lemma inv_preempt: "memdev_inv (s\<lparr>preempt_depth := d\<rparr>) \<longleftrightarrow> memdev_inv s"
  by (simp add: memdev_inv_def pages_exact_def all_registered_def)

lemma inv_mmap:
  assumes inv: "memdev_inv s" and "loaded s" and f: "f \<in> fst ` set (file_list s)"
    and env: "mmap_env_ok e s"
  shows "memdev_inv (snd (snd (memdev_mmap f e s)))"
proof -
  obtain ret v t where run: "memdev_mmap f e s = (ret, v, t)" by (metis prod_cases3)
  from run show ?thesis
  proof (cases rule: memdev_mmap_cases)
    case (early d)
    then show ?thesis by (simp add: run inv inv_preempt)
  next
    case (late d)
    have "memdev_inv (with_stale e s)"
    proof (cases "mmap_stale e = {#}")
      case True
      then show ?thesis by (simp add: with_stale_none inv)
    next
      case False
      then show ?thesis
        using memdev_invD(1-4,7-9) [OF inv] with_stale_held [OF inv, of e]
        by (intro memdev_invI) (simp_all add: with_stale_def all_registered_def)
    qed
    then show ?thesis by (simp add: run late(2) inv_preempt)
  next
    case (ok d)
    have regs: "regions t = add_mset (new_region e) (regions s)"
      unfolding ok(5) using regions_of_add_region [OF memdev_invD(1) [OF inv] f] by simp
    have len: "length (add_region f (new_region e) (file_list s)) = length (file_list s)"
      by (simp add: add_region_def)
    have pages: "region_pages (regions t) = mmap_stale e + (region_pages (regions s) + mmap_taken e)"
      by (simp add: regs new_region_pages)
    have "pages_held t \<subseteq># region_pages (regions t)"
      unfolding pages using memdev_invD(5) [OF inv] by (simp add: ok(5) subset_mset.add_increasing)
    moreover have "pages_exact t" if "\<not> stale_used t"
    proof -
      have none: "mmap_stale e = {#}" "\<not> stale_used s" using that by (simp_all add: ok(5))
      from memdev_invD(6) [OF inv none(2)] have exact: "pages_exact s" .
      then have held: "pages_held s = region_pages (regions s)" "\<not> bad_free s"
        and once: "\<forall>p. count (pages_held s) p \<le> 1" unfolding pages_exact_def by blast+
      have "\<forall>p. count (region_pages (regions s)) p + count (mmap_taken e) p \<le> 1"
        using fresh_count [OF env once] by (simp add: held(1) add.commute)
      then show ?thesis
        using held pages by (simp add: pages_exact_def none(1)) (simp add: ok(5))
    qed
    ultimately show ?thesis
      unfolding run snd_conv
      by (intro memdev_invI)
         (use memdev_invD(1-4,7-9) [OF inv] regs ok(2) len \<open>loaded s\<close> in
           \<open>simp_all add: all_registered_def ok(5)\<close>)
  qed
qed

lemma inv_exit:
  assumes inv: "memdev_inv s" and "module_refs s = 0"
  shows "memdev_exit s = s\<lparr>has_device := False, has_class := False, has_cdev := False,
    has_chrdev := False, loaded := False\<rparr>" and "memdev_inv (memdev_exit s)"
proof -
  have empty: "file_list s = []" using memdev_invD(2) [OF inv] assms(2) by simp
  then show eq: "memdev_exit s = s\<lparr>has_device := False, has_class := False, has_cdev := False,
      has_chrdev := False, loaded := False\<rparr>"
    using memdev_invD(3) [OF inv] by (simp add: memdev_exit_def)
  show "memdev_inv (memdev_exit s)"
    using inv empty by (simp add: eq memdev_inv_def pages_exact_def all_registered_def)
qed

lemma memdev_step_inv: "memdev_inv s \<Longrightarrow> memdev_step s t \<Longrightarrow> memdev_inv t"
proof (rotate_tac 1, induction rule: memdev_step.induct)
  case (sys_ioctl s cmd arg)
  then show ?case by (simp add: memdev_ioctl_def)
qed (auto intro: inv_init_op inv_open inv_release inv_mmap inv_close inv_exit)

interpretation memdev_sys: counted_system memdev_boot memdev_step memdev_inv
  module_refs "\<lambda>s. length (file_list s)"
proof
  show "memdev_inv s" if "memdev_boot s" for s
    using that by (simp add: memdev_boot_def memdev_inv_def pages_exact_def all_registered_def)
qed (auto intro: memdev_step_inv dest: memdev_invD)

section \<open>A concrete run, for the witnesses\<close>

definition boot_state :: memdev where
  "boot_state = \<lparr>loaded = False, g_prot = PROT_CACHEABLE, numa_enabled = False, file_list = [],
     mapped_count = 0, module_refs = 0, pages_held = {#}, bad_free = False, stale_used = False, heap = 0,
     preempt_depth = 0, has_chrdev = False, has_cdev = False, has_class = False, has_device = False\<rparr>"

definition demo_init_env :: init_env where
  "demo_init_env = \<lparr>i_attr = ''normal_noncacheable'', i_nodes = 1, i_chrdev = 0, i_cdev = 0,
     i_class = 0, i_device = 0\<rparr>"

definition demo_mmap_env :: mmap_env where
  "demo_mmap_env = \<lparr>e_vm_start = 0x10000, e_vm_end = 0x12000, e_policy = None, e_cpu_node = 0,
     e_array = Some [None, None], e_fresh = [3, 4, 5], e_insert_ret = 0, e_region_ok = True,
     e_pid = 42\<rparr>"

definition opened_state :: memdev where
  "opened_state = snd (memdev_open \<lparr>oe_get_ok = True, oe_alloc = Some 7\<rparr>
     (snd (memdev_init demo_init_env boot_state)))"

definition mapped_state :: memdev where
  "mapped_state = snd (snd (memdev_mmap 7 demo_mmap_env opened_state))"

lemma loaded_state: "snd (memdev_init demo_init_env boot_state) = boot_state\<lparr>g_prot := PROT_WRITECOMBINE,
    has_chrdev := True, has_cdev := True, has_class := True, has_device := True, loaded := True\<rparr>"
  by (simp add: memdev_init_def demo_init_env_def boot_state_def attr_prot_def)

lemma opened_state_eq: "opened_state = boot_state\<lparr>g_prot := PROT_WRITECOMBINE, has_chrdev := True,
    has_cdev := True, has_class := True, has_device := True, loaded := True, file_list := [(7, [])],
    module_refs := 1, heap := 1\<rparr>"
  unfolding opened_state_def loaded_state by (simp add: memdev_open_def boot_state_def)

lemma loaded_fields [simp]: "loaded (snd (memdev_init demo_init_env boot_state))"
  "file_list (snd (memdev_init demo_init_env boot_state)) = []"
  "module_refs (snd (memdev_init demo_init_env boot_state)) = 0"
  unfolding loaded_state by (simp_all add: boot_state_def)

lemma opened_fields [simp]: "loaded opened_state" "file_list opened_state = [(7, [])]"
  "pages_held opened_state = {#}" "\<not> numa_enabled opened_state" "heap opened_state = 1"
  "mapped_count opened_state = 0" "\<not> stale_used opened_state"
  unfolding opened_state_eq by (simp_all add: boot_state_def)

lemma demo_env_ok: "mmap_env_ok demo_mmap_env opened_state"
  by (simp add: mmap_env_ok_def demo_mmap_env_def)

lemma reach_loaded: "reach memdev_boot memdev_step (snd (memdev_init demo_init_env boot_state))"
  by (rule reach_step [OF reach_init])
     (auto simp: memdev_boot_def boot_state_def all_registered_def intro: insmod)

lemma reach_opened: "reach memdev_boot memdev_step opened_state"
  unfolding opened_state_def
  by (rule reach_step [OF reach_loaded], rule sys_open) simp_all

lemma reach_mapped: "reach memdev_boot memdev_step mapped_state"
  unfolding mapped_state_def
  by (rule reach_step [OF reach_opened], rule sys_mmap)
     (simp_all add: demo_env_ok)

lemma demo_mmap: "fst (memdev_mmap 7 demo_mmap_env opened_state) = 0"
  "mapped_count mapped_state = 1"
  by (simp_all add: mapped_state_def memdev_mmap_def demo_mmap_env_def
      get_cpu_def map_pages_to_vma_def PAGE_SIZE_def Let_def)

lemma demo_state:
  "file_list mapped_state = [(7, [new_region demo_mmap_env])]" "loaded mapped_state"
  "\<not> stale_used mapped_state"
  by (simp_all add: mapped_state_def memdev_mmap_def demo_mmap_env_def add_region_def new_region_def
      mmap_slots_def stale_pages_def get_cpu_def map_pages_to_vma_def PAGE_SIZE_def Let_def)

section \<open>Properties\<close>

text \<open>
  C1: the module's books are right in every reachable state, whatever the uncleared page arrays
  contained: the mapping counter is the number of regions (modulo 2^32, it is an \<open>atomic_t\<close>), the
  reference count is the number of open files, no kernel memory is lost, and every page held belongs to
  a region. Unless some \<open>mmap\<close> has taken an old value of its array for a page, the pages held are exactly
  those of the regions, each owned once, and no foreign page was ever freed.
\<close>
theorem memdev_accounting:
  assumes "reach memdev_boot memdev_step s"
  shows "mapped_count s = word_of_nat (size (regions s)) \<and> module_refs s = length (file_list s) \<and>
         heap s = int (length (file_list s)) + 2 * int (size (regions s)) \<and>
         pages_held s \<subseteq># region_pages (regions s) \<and>
         (stale_used s \<or> pages_held s = region_pages (regions s) \<and>
            (\<forall>p. count (pages_held s) p \<le> 1) \<and> \<not> bad_free s)"
proof -
  have inv: "memdev_inv s" by (rule memdev_sys.reach_inv [OF assms])
  have "stale_used s \<or> pages_exact s" using memdev_invD(6) [OF inv] by blast
  then show ?thesis
    unfolding pages_exact_def by (intro conjI memdev_invD(2-5) [OF inv])
qed

theorem memdev_accounting_witness:
  "mapped_count mapped_state = 1 \<and> size (regions mapped_state) = 1 \<and> \<not> bad_free mapped_state \<and>
     pages_held mapped_state = region_pages (regions mapped_state)"
  using memdev_accounting [OF reach_mapped] demo_state demo_mmap(2) by simp

text \<open>
  C25: the module goes away cleanly. When no open file keeps it, its exit function never takes the
  refusing branch: no page and no memory is held and everything registered is unregistered.
\<close>
theorem memdev_unload_clean:
  assumes "reach memdev_boot memdev_step s" and "module_refs s = 0"
  shows "file_list s = [] \<and> pages_held (memdev_exit s) = {#} \<and> heap (memdev_exit s) = 0 \<and>
         \<not> 0 < sint (mapped_count s) \<and> all_registered False (memdev_exit s)"
proof -
  have inv: "memdev_inv s" by (rule memdev_sys.reach_inv [OF assms(1)])
  have idle: "file_list s = []"
    using memdev_sys.unload_iff_idle [OF assms(1)] assms(2) by simp
  then have "pages_held s = {#}" "heap s = 0" "mapped_count s = 0"
    using memdev_invD(3-5) [OF inv] by simp_all
  with idle show ?thesis
    by (simp add: inv_exit [OF inv assms(2)] all_registered_def)
qed

theorem memdev_unload_clean_witness:
  "all_registered False (memdev_exit (snd (memdev_init demo_init_env boot_state)))"
  using memdev_unload_clean [OF reach_loaded] by simp

text \<open>
  C14: a failing \<open>mmap\<close> installs no close callback and keeps nothing: no region, no memory and no page it took
  from the allocator stays behind and no count has changed (only the preemption depth may have). With
  an array that holds no old value among the slots counted, the state is otherwise exactly as before.
  When old values were counted as pages, the only difference is that they have been freed too.
\<close>
theorem memdev_mmap_failure_clean:
  assumes "memdev_mmap f e s = (ret, v, t)" and "ret \<noteq> 0"
  shows "\<not> vm_close_set v \<and>
    (t = s\<lparr>preempt_depth := preempt_depth t\<rparr> \<or>
     mmap_stale e \<noteq> {#} \<and>
     t = s\<lparr>preempt_depth := preempt_depth t, pages_held := pages_held s - mmap_stale e,
           bad_free := bad_free s \<or> \<not> mmap_stale e \<subseteq># pages_held s, stale_used := True\<rparr>)"
  using assms(1)
proof (cases rule: memdev_mmap_cases)
  case (late d)
  then show ?thesis by (cases "mmap_stale e = {#}") (simp_all add: with_stale_def)
qed (use assms(2) in simp_all)

theorem memdev_mmap_failure_clean_witness:
  "fst (memdev_mmap 7 (demo_mmap_env\<lparr>e_insert_ret := - ENOMEM\<rparr>) opened_state) = - ENOMEM \<and>
   heap (snd (snd (memdev_mmap 7 (demo_mmap_env\<lparr>e_insert_ret := - ENOMEM\<rparr>) opened_state))) = 1"
proof -
  let ?e = "demo_mmap_env\<lparr>e_insert_ret := - ENOMEM\<rparr>"
  obtain ret v t where run: "memdev_mmap 7 ?e opened_state = (ret, v, t)" by (metis prod_cases3)
  have "fst (memdev_mmap 7 ?e opened_state) = - ENOMEM"
    by (simp add: memdev_mmap_def demo_mmap_env_def
        get_cpu_def map_pages_to_vma_def PAGE_SIZE_def Let_def)
  with run have ret: "ret = - ENOMEM" by simp
  have "mmap_stale ?e = {#}"
    by (simp add: mmap_stale_def stale_pages_def mmap_slots_def demo_mmap_env_def PAGE_SIZE_def)
  with ret memdev_mmap_failure_clean [OF run] have "t = opened_state\<lparr>preempt_depth := preempt_depth t\<rparr>"
    by simp
  then have "heap t = heap (opened_state\<lparr>preempt_depth := preempt_depth t\<rparr>)" by (rule arg_cong)
  then show ?thesis by (simp add: run ret)
qed

text \<open>
  C13: mapping and unmapping cancel. A successful \<open>mmap\<close> adds one region made of the filled array;
  closing the VMA at that address in that process then removes that region and nothing else, if no older
  region carries the same process and address: regions, files, memory and counters are as before, the pages
  taken from the allocator are back, and with no old value in the array so are the books of the
  pages. An old value that was taken for a page is freed with them.
\<close>
theorem memdev_mmap_close_roundtrip:
  assumes inv: "memdev_inv s" and f: "f \<in> fst ` set (file_list s)"
    and run: "memdev_mmap f e s = (0, v, t)"
    and uniq: "\<forall>r \<in># regions s. \<not> region_matches (e_pid e) (e_vm_start e) r"
  shows "vm_close_set v \<and> regions t = add_mset (new_region e) (regions s) \<and>
    pages_held t = pages_held s + mmap_taken e \<and>
    (let u = memdev_vma_close (e_pid e) (e_vm_start e) t in
       regions u = regions s \<and> heap u = heap s \<and>
       mapped_count u = mapped_count s \<and> map fst (file_list u) = map fst (file_list s) \<and>
       pages_held u = pages_held s - mmap_stale e \<and>
       bad_free u = (bad_free s \<or> \<not> mmap_stale e \<subseteq># pages_held s))"
  using run
proof (cases rule: memdev_mmap_cases)
  case (ok d)
  let ?pid = "e_pid e" and ?va = "e_vm_start e"
  have regs: "regions t = add_mset (new_region e) (regions s)"
    using memdev_invD(1) [OF inv] f by (simp add: ok(5) regions_of_add_region)
  have "region_matches ?pid ?va (new_region e)"
    by (simp add: region_matches_def new_region_def)
  then obtain r fs where x: "find_and_unlink ?pid ?va (file_list t) = Some (r, fs)"
    using regs find_and_unlink_None [of ?pid ?va "file_list t"] by fastforce
  note found = find_and_unlink_Some [OF x]
  then have r: "r = new_region e"
    using regs uniq by (metis insertE set_mset_add_mset_insert union_single_eq_member)
  have close: "memdev_vma_close ?pid ?va t = t\<lparr>file_list := fs,
      pages_held := pages_held s - mmap_stale e,
      bad_free := bad_free s \<or> \<not> mmap_stale e \<subseteq># pages_held s, heap := heap t - 2,
      mapped_count := mapped_count t - 1\<rparr>"
    using ok(2) by (simp add: memdev_vma_close_def x free_mapped_region_ok r new_region_pages) (simp add: ok(5))
  have fields: "heap t = heap s + 2" "mapped_count t = mapped_count s + 1"
      "map fst (file_list t) = map fst (file_list s)" "pages_held t = pages_held s + mmap_taken e"
    by (simp_all add: ok(5))
  show ?thesis
    using found regs fields ok(3) by (simp add: close r Let_def)
qed simp_all

theorem memdev_mmap_close_roundtrip_witness:
  "regions mapped_state = {#new_region demo_mmap_env#} \<and>
   regions (memdev_vma_close 42 0x10000 mapped_state) = {#} \<and>
   heap (memdev_vma_close 42 0x10000 mapped_state) = 1"
proof -
  obtain v where run: "memdev_mmap 7 demo_mmap_env opened_state = (0, v, mapped_state)"
    using demo_mmap(1) by (metis mapped_state_def prod.collapse)
  have inv: "memdev_inv opened_state" by (rule memdev_sys.reach_inv [OF reach_opened])
  from memdev_mmap_close_roundtrip [OF inv _ run] show ?thesis
    by (simp add: Let_def) (simp add: demo_mmap_env_def)
qed

text \<open>
  C39: the last close of a file reclaims everything that was mapped through it. Whatever VMA closes happened before,
  by whichever process and at whichever address (a child after a fork and the parts of a VMA that was unmapped
  in pieces are not found), releasing the file takes all its regions away and no region of another file that
  no close has asked for; the counter is the number of regions left and every page still held belongs to
  one of them. Unless an old value of a page array had been taken for a page, all the pages of the regions
  left are still held, each once, and no foreign page has been freed.
\<close>
theorem memdev_release_reclaims:
  assumes "memdev_inv s" "loaded s" "map_of (file_list s) f = Some rs"
    and "u = snd (memdev_release (Some f) (fold (\<lambda>(pid, va). memdev_vma_close pid va) closes s))"
  shows "f \<notin> fst ` set (file_list u) \<and> regions u \<subseteq># regions s - mset rs \<and>
    (\<forall>r \<in># regions s - mset rs. r \<notin># regions u \<longrightarrow> (\<exists>(pid, va) \<in> set closes. region_matches pid va r)) \<and>
    mapped_count u = word_of_nat (size (regions u)) \<and> pages_held u \<subseteq># region_pages (regions u) \<and>
    (stale_used s \<or> pages_held u = region_pages (regions u) \<and>
       (\<forall>p. count (pages_held u) p \<le> 1) \<and> \<not> bad_free u)"
proof -
  let ?t = "fold (\<lambda>(pid, va). memdev_vma_close pid va) closes s"
  have t: "memdev_inv ?t" "loaded ?t" "stale_used ?t = stale_used s" "map fst (file_list ?t) = map fst (file_list s)"
    "regions_of (remove_file f (file_list ?t)) \<subseteq># regions_of (remove_file f (file_list s))"
    "\<forall>r \<in># regions_of (remove_file f (file_list s)). r \<notin># regions_of (remove_file f (file_list ?t)) \<longrightarrow>
       (\<exists>(pid, va) \<in> set closes. region_matches pid va r)"
    using closes_frame [OF assms(1,2), of closes f] unfolding Let_def by blast+
  have "f \<in> fst ` set (file_list s)" using assms(3) by (force dest: map_of_SomeD)
  then have f: "f \<in> fst ` set (file_list ?t)" using t(4) by (metis list.set_map)
  then obtain rs' where rs': "map_of (file_list ?t) f = Some rs'" by (metis map_of_eq_None_iff not_None_eq)
  have inv: "memdev_inv u" unfolding assms(4) by (rule inv_release [OF t(1) f t(2)])
  have files: "file_list u = remove_file f (file_list ?t)" "stale_used u = stale_used s"
    by (simp_all add: assms(4) release_eq [OF t(1) rs'] t(3))
  have rest: "regions s - mset rs = regions_of (remove_file f (file_list s))"
    using regions_of_remove_file [OF memdev_invD(1) [OF assms(1)] assms(3)] by simp
  have "stale_used s \<or> pages_exact u" using memdev_invD(6) [OF inv] files(2) by blast
  then show ?thesis
    unfolding rest pages_exact_def
    by (intro conjI memdev_invD(3,5) [OF inv]) (use t(5,6) in \<open>auto simp: files(1) remove_file_def\<close>)
qed

theorem memdev_release_reclaims_witness:
  "let u = snd (memdev_release (Some 7) (memdev_vma_close 43 0x10000 mapped_state)) in
    regions u = {#} \<and> pages_held u = {#} \<and> mapped_count u = 0"
proof -
  have inv: "memdev_inv mapped_state" by (rule memdev_sys.reach_inv [OF reach_mapped])
  define u where "u = snd (memdev_release (Some 7) (memdev_vma_close 43 0x10000 mapped_state))"
  have files: "map_of (file_list mapped_state) 7 = Some [new_region demo_mmap_env]"
    by (simp add: demo_state)
  have "u = snd (memdev_release (Some 7)
      (fold (\<lambda>(pid, va). memdev_vma_close pid va) [(43, 0x10000)] mapped_state))"
    by (simp add: u_def)
  from memdev_release_reclaims [OF inv demo_state(2) files this]
  have "regions u = {#}" "pages_held u \<subseteq># region_pages (regions u)"
    "mapped_count u = word_of_nat (size (regions u))"
    by (auto simp: demo_state)
  then show ?thesis by (simp add: u_def)
qed

text \<open>
  C26: module initialisation is all or nothing: on success everything is registered and the
  parameter selects the page protection; on any failure everything registered on the way has been
  unregistered again, and an unknown attribute is rejected before anything is registered.
\<close>
theorem memdev_init_all_or_nothing:
  assumes "all_registered False s" and "memdev_init e s = (ret, t)"
  shows "all_registered (ret = 0) t \<and> (ret = 0 \<longleftrightarrow> attr_prot (i_attr e) \<noteq> None \<and>
           i_chrdev e \<ge> 0 \<and> i_cdev e \<ge> 0 \<and> i_class e = 0 \<and> i_device e = 0) \<and>
         (ret = 0 \<longrightarrow> attr_prot (i_attr e) = Some (g_prot t))"
  using assms
  by (auto simp: memdev_init_def all_registered_def Let_def split: option.splits if_splits)

theorem memdev_init_all_or_nothing_witness:
  "fst (memdev_init (demo_init_env\<lparr>i_class := - ENOMEM\<rparr>) boot_state) = - ENOMEM \<and>
   all_registered False (snd (memdev_init (demo_init_env\<lparr>i_class := - ENOMEM\<rparr>) boot_state))"
proof -
  let ?r = "memdev_init (demo_init_env\<lparr>i_class := - ENOMEM\<rparr>) boot_state"
  have "all_registered False boot_state" by (simp add: all_registered_def boot_state_def)
  note all = memdev_init_all_or_nothing [OF this prod.collapse [symmetric]]
  have ret: "fst ?r = - ENOMEM"
    by (simp add: memdev_init_def demo_init_env_def attr_prot_def)
  show ?thesis using all [of "demo_init_env\<lparr>i_class := - ENOMEM\<rparr>"] ret by simp
qed

text \<open>
  every call of \<open>mmap\<close> with a valid size disables preemption through \<open>get_cpu\<close> and returns
  without enabling it again, on success as on failure.
\<close>
theorem memdev_mmap_leaks_preemption:
  assumes "e_vm_end e \<noteq> e_vm_start e" and "(e_vm_end e - e_vm_start e) mod PAGE_SIZE = 0"
    and "memdev_mmap f e s = (ret, v, t)"
  shows "preempt_depth s < preempt_depth t"
proof -
  have "preempt_depth (fold free_page ps u) = preempt_depth u" for ps u
    by (induction ps arbitrary: u) (simp_all add: free_page_def)
  then show ?thesis
    using assms
    by (auto simp: memdev_mmap_def get_cpu_def get_allocation_node_def map_pages_to_vma_def
        err_free_pages_def Let_def split: if_splits option.splits)
qed

theorem memdev_mmap_leaks_preemption_witness:
  "0 < preempt_depth mapped_state"
proof -
  obtain v where run: "memdev_mmap 7 demo_mmap_env opened_state = (0, v, mapped_state)"
    using demo_mmap(1) by (metis mapped_state_def prod.collapse)
  have "e_vm_end demo_mmap_env \<noteq> e_vm_start demo_mmap_env"
    and "(e_vm_end demo_mmap_env - e_vm_start demo_mmap_env) mod PAGE_SIZE = 0"
    by (simp_all add: demo_mmap_env_def PAGE_SIZE_def)
  from memdev_mmap_leaks_preemption [OF this run] show ?thesis by simp
qed

text \<open>
  C40: the page array comes from \<open>kvmalloc_array\<close>, which does not clear it, while the bulk allocator
  keeps entries that are not NULL. A stale pointer in the array is mapped into the process like an
  allocated page, and freeing the region then frees a page the module never got.
\<close>
theorem memdev_stale_array_frees_foreign_page:
  assumes "e_vm_end e - e_vm_start e = PAGE_SIZE" and "\<not> numa_enabled s" and "e_array e = Some [Some p]"
    and "e_insert_ret e = 0" and "e_region_ok e" and "pages_held s = {#}"
    and "file_list s = [(f, [])]"
  shows "\<exists>v t. memdev_mmap f e s = (0, v, t) \<and> pages_held t = {#} \<and>
         bad_free (memdev_vma_close (e_pid e) (e_vm_start e) t)"
proof -
  have "PAGE_SIZE div PAGE_SIZE = 1" "PAGE_SIZE \<noteq> 0"
    by (simp_all add: PAGE_SIZE_def)
  then show ?thesis
    using assms
    by (simp add: memdev_mmap_def get_cpu_def taken_pages_def map_pages_to_vma_def add_region_def
        memdev_vma_close_def extract_Cons_code region_matches_def free_mapped_region_def
        free_page_def Let_def)
qed

theorem memdev_stale_array_frees_foreign_page_witness:
  "\<exists>v t. memdev_mmap 7 (demo_mmap_env\<lparr>e_vm_end := 0x11000, e_array := Some [Some 99]\<rparr>) opened_state
       = (0, v, t) \<and> bad_free (memdev_vma_close 42 0x10000 t)"
proof -
  let ?e = "demo_mmap_env\<lparr>e_vm_end := 0x11000, e_array := Some [Some 99]\<rparr>"
  have "e_vm_end ?e - e_vm_start ?e = PAGE_SIZE" by (simp add: demo_mmap_env_def PAGE_SIZE_def)
  from memdev_stale_array_frees_foreign_page [OF this, of opened_state 99 7] show ?thesis
    by (simp add: demo_mmap_env_def) blast
qed

end
