(* ===== verification/PageTable.thy ===== *)
theory PageTable
  imports Machine
begin

unbundle bit_operations_syntax

text \<open>
  Address translation. The kernel side is \<open>kernel-module/mm/page_table/page_table_walker.c\<close>: the
  ioctl handler, \<open>query_page_table\<close> with its five-level software walk, and \<open>get_mm_by_pid\<close> with
  the references it takes and drops. The user side is the decoding of \<open>/proc/PID/pagemap\<close> in
  \<open>issue_queries.c\<close> and \<open>linux-c/va-to-pa.c\<close>. The kernel's own accessors (\<open>pgd_offset\<close>,
  \<open>pud_leaf\<close>, \<open>pte_pfn\<close>, ...) are the argument \<open>arch\<close>, a snapshot of the tables taken under
  \<open>mmap_read_lock\<close>. The walk is compared with a generic walker over a list of levels.
\<close>

section \<open>Kernel accessors and the query\<close>

record arch =
  page_shift :: nat
  page_offset :: u64
  pud_mask :: u64
  pmd_mask :: u64
  page_mask :: u64
  read_entry :: "u64 \<Rightarrow> u64"                 \<comment> \<open>\<open>pgdp_get\<close> and its kin: the entry at an address\<close>
  pgd_offset :: "u64 \<Rightarrow> u64 \<Rightarrow> u64"          \<comment> \<open>\<open>mm->pgd\<close> and address to entry pointer\<close>
  p4d_offset :: "u64 \<Rightarrow> u64 \<Rightarrow> u64"
  pud_offset :: "u64 \<Rightarrow> u64 \<Rightarrow> u64"
  pmd_offset :: "u64 \<Rightarrow> u64 \<Rightarrow> u64"
  pte_offset_kernel :: "u64 \<Rightarrow> u64 \<Rightarrow> u64"
  pgd_none :: "u64 \<Rightarrow> bool"
  pgd_bad :: "u64 \<Rightarrow> bool"
  p4d_none :: "u64 \<Rightarrow> bool"
  p4d_bad :: "u64 \<Rightarrow> bool"
  pud_none :: "u64 \<Rightarrow> bool"
  pud_bad :: "u64 \<Rightarrow> bool"
  pud_leaf :: "u64 \<Rightarrow> bool"
  pud_pfn :: "u64 \<Rightarrow> u64"
  pmd_none :: "u64 \<Rightarrow> bool"
  pmd_bad :: "u64 \<Rightarrow> bool"
  pmd_leaf :: "u64 \<Rightarrow> bool"
  pmd_pfn :: "u64 \<Rightarrow> u64"
  pte_none :: "u64 \<Rightarrow> bool"
  pte_pfn :: "u64 \<Rightarrow> u64"

record page_table_query =
  pid :: u32
  va :: u64
  num_levels :: u32
  pgd_table_kla :: u64
  pgd_entry_kla :: u64
  p4d_entry_kla :: u64
  pud_entry_kla :: u64
  pmd_entry_kla :: u64
  pte_entry_kla :: u64
  pgd_entry :: u64
  p4d_entry :: u64
  pud_entry :: u64
  pmd_entry :: u64
  pte_entry :: u64
  pa :: u64
  kla_start :: u64

record proc_env =
  find_get_pid :: "int \<Rightarrow> nat option"
  get_pid_task :: "nat \<Rightarrow> nat option"
  get_task_mm :: "nat \<Rightarrow> nat option"
  current_task :: nat
  mm_pgd :: "nat \<Rightarrow> u64"

datatype kref = Pid_ref nat | Task_ref nat | Mm_ref nat | Mmap_read nat

definition get_mm_by_pid :: "proc_env \<Rightarrow> int \<Rightarrow> nat option \<times> kref rev list" where
  "get_mm_by_pid p pid_nr =
     (case find_get_pid p pid_nr of
        None \<Rightarrow> (None, [])
      | Some pid_struct \<Rightarrow>
          (case get_pid_task p pid_struct of
             None \<Rightarrow> (None, [Acquire (Pid_ref pid_struct), Release (Pid_ref pid_struct)])
           | Some task \<Rightarrow>
               let t1 = [Acquire (Pid_ref pid_struct), Acquire (Task_ref task),
                         Release (Pid_ref pid_struct)]
               in case get_task_mm p task of
                    None \<Rightarrow> (None, t1 @ [Release (Task_ref task)])
                  | Some mm \<Rightarrow> (Some mm, t1 @ [Acquire (Mm_ref mm), Release (Task_ref task)])))"

section \<open>The walk\<close>

record walk_vars =
  w_levels :: u32
  w_pgdp :: u64
  w_p4dp :: u64
  w_pudp :: u64
  w_pmdp :: u64
  w_ptep :: u64
  w_pgd :: u64
  w_p4d :: u64
  w_pud :: u64
  w_pmd :: u64
  w_pte :: u64
  w_paddr :: u64

definition walk_start :: walk_vars where
  "walk_start = \<lparr>w_levels = 0, w_pgdp = 0, w_p4dp = 0, w_pudp = 0, w_pmdp = 0, w_ptep = 0,
     w_pgd = 0, w_p4d = 0, w_pud = 0, w_pmd = 0, w_pte = 0, w_paddr = 0\<rparr>"

definition walk :: "arch \<Rightarrow> u64 \<Rightarrow> u64 \<Rightarrow> walk_vars" where
  "walk k pgd_table vaddr =
     (let pgdp = pgd_offset k pgd_table vaddr; pgd = read_entry k pgdp;
          w1 = walk_start\<lparr>w_levels := 1, w_pgdp := pgdp, w_pgd := pgd\<rparr> in
      if pgd_none k pgd \<or> pgd_bad k pgd then w1
      else
      let p4dp = p4d_offset k pgdp vaddr; p4d = read_entry k p4dp;
          w2 = w1\<lparr>w_levels := w_levels w1 + 1, w_p4dp := p4dp, w_p4d := p4d\<rparr> in
      if p4d_none k p4d \<or> p4d_bad k p4d then w2
      else
      let pudp = pud_offset k p4dp vaddr; pud = read_entry k pudp;
          w3 = w2\<lparr>w_levels := w_levels w2 + 1, w_pudp := pudp, w_pud := pud\<rparr> in
      if pud_none k pud \<or> pud_bad k pud then w3
      else if pud_leaf k pud
      then w3\<lparr>w_paddr := push_bit (page_shift k) (pud_pfn k pud) + (vaddr AND NOT (pud_mask k))\<rparr>
      else
      let pmdp = pmd_offset k pudp vaddr; pmd = read_entry k pmdp;
          w4 = w3\<lparr>w_levels := w_levels w3 + 1, w_pmdp := pmdp, w_pmd := pmd\<rparr> in
      if pmd_none k pmd \<or> pmd_bad k pmd then w4
      else if pmd_leaf k pmd
      then w4\<lparr>w_paddr := push_bit (page_shift k) (pmd_pfn k pmd) + (vaddr AND NOT (pmd_mask k))\<rparr>
      else
      let ptep = pte_offset_kernel k pmdp vaddr; pte = read_entry k ptep;
          w5 = w4\<lparr>w_levels := w_levels w4 + 1, w_ptep := ptep, w_pte := pte\<rparr> in
      if pte_none k pte then w5
      else w5\<lparr>w_paddr := push_bit (page_shift k) (pte_pfn k pte) + (vaddr AND NOT (page_mask k))\<rparr>)"

definition query_page_table ::
  "arch \<Rightarrow> proc_env \<Rightarrow> page_table_query \<Rightarrow> int \<times> page_table_query \<times> kref rev list" where
  "query_page_table k p q =
     (let (mm, t1) = (if pid q \<noteq> 0 then get_mm_by_pid p (sint (pid q))
                      else case get_task_mm p (current_task p) of
                             None \<Rightarrow> (None, [])
                           | Some mm \<Rightarrow> (Some mm, [Acquire (Mm_ref mm)]))
      in case mm of
           None \<Rightarrow> (- ESRCH, q, t1)
         | Some mm \<Rightarrow>
             let w = walk k (mm_pgd p mm) (va q)
             in (0,
                 q\<lparr>num_levels := w_levels w, pgd_table_kla := mm_pgd p mm,
                   pgd_entry_kla := w_pgdp w, p4d_entry_kla := w_p4dp w, pud_entry_kla := w_pudp w,
                   pmd_entry_kla := w_pmdp w, pte_entry_kla := w_ptep w, pgd_entry := w_pgd w,
                   p4d_entry := w_p4d w, pud_entry := w_pud w, pmd_entry := w_pmd w,
                   pte_entry := w_pte w, pa := w_paddr w, kla_start := page_offset k\<rparr>,
                 t1 @ [Acquire (Mmap_read mm), Release (Mmap_read mm), Release (Mm_ref mm)]))"

text \<open>\<open>_IOWR('x', 0, struct page_table_query)\<close>; the structure has 128 bytes.\<close>

definition PAGE_TABLE_QUERY :: u32 where
  "PAGE_TABLE_QUERY = (push_bit 30 3) OR (push_bit 16 128) OR (push_bit 8 120) OR 0"

record user_env =
  copy_in_ok :: bool    \<comment> \<open>\<open>copy_from_user\<close> returns 0\<close>
  copy_out_ok :: bool   \<comment> \<open>\<open>copy_to_user\<close> returns 0\<close>
  copy_out_part :: "page_table_query \<Rightarrow> page_table_query \<Rightarrow> page_table_query"
    \<comment> \<open>user memory after a \<open>copy_to_user\<close> that fails half way, from the old and the new contents\<close>

definition walker_ioctl :: "arch \<Rightarrow> proc_env \<Rightarrow> user_env \<Rightarrow> u32 \<Rightarrow> page_table_query \<Rightarrow>
    int \<times> page_table_query \<times> kref rev list" where
  \<comment> \<open>the last argument and the second result are the structure in user memory\<close>
  "walker_ioctl k p u cmd uq =
     (if cmd = PAGE_TABLE_QUERY then
        if \<not> copy_in_ok u then (- EFAULT, uq, [])
        else case query_page_table k p uq of
          (ret, q, t) \<Rightarrow>
            if ret \<noteq> 0 then (ret, uq, t)
            else if \<not> copy_out_ok u then (- EFAULT, copy_out_part u uq q, t)
            else (0, q, t)
      else (- ENOTTY, uq, []))"

section \<open>Specification: a walk over a list of levels\<close>

record level =
  lv_offset :: "u64 \<Rightarrow> u64 \<Rightarrow> u64"
  lv_stop :: "u64 \<Rightarrow> bool"
  lv_leaf :: "u64 \<Rightarrow> bool"
  lv_pfn :: "u64 \<Rightarrow> u64"
  lv_mask :: u64

definition leaf_address :: "nat \<Rightarrow> u64 \<Rightarrow> u64 \<Rightarrow> u64 \<Rightarrow> u64" where
  "leaf_address shift pfn m vaddr = push_bit shift pfn + (vaddr AND NOT m)"

fun walk_levels :: "(u64 \<Rightarrow> u64) \<Rightarrow> nat \<Rightarrow> level list \<Rightarrow> u64 \<Rightarrow> u64 \<Rightarrow>
    (u64 \<times> u64) list \<times> u64 option" where
  "walk_levels rd shift [] parent vaddr = ([], None)"
| "walk_levels rd shift (l # ls) parent vaddr =
     (let p = lv_offset l parent vaddr; e = rd p in
      if lv_stop l e then ([(p, e)], None)
      else if lv_leaf l e then ([(p, e)], Some (leaf_address shift (lv_pfn l e) (lv_mask l) vaddr))
      else case walk_levels rd shift ls p vaddr of (vs, r) \<Rightarrow> ((p, e) # vs, r))"

definition arch_levels :: "arch \<Rightarrow> level list" where
  "arch_levels k =
     [\<lparr>lv_offset = pgd_offset k, lv_stop = (\<lambda>e. pgd_none k e \<or> pgd_bad k e),
       lv_leaf = (\<lambda>_. False), lv_pfn = (\<lambda>_. 0), lv_mask = 0\<rparr>,
      \<lparr>lv_offset = p4d_offset k, lv_stop = (\<lambda>e. p4d_none k e \<or> p4d_bad k e),
       lv_leaf = (\<lambda>_. False), lv_pfn = (\<lambda>_. 0), lv_mask = 0\<rparr>,
      \<lparr>lv_offset = pud_offset k, lv_stop = (\<lambda>e. pud_none k e \<or> pud_bad k e),
       lv_leaf = pud_leaf k, lv_pfn = pud_pfn k, lv_mask = pud_mask k\<rparr>,
      \<lparr>lv_offset = pmd_offset k, lv_stop = (\<lambda>e. pmd_none k e \<or> pmd_bad k e),
       lv_leaf = pmd_leaf k, lv_pfn = pmd_pfn k, lv_mask = pmd_mask k\<rparr>,
      \<lparr>lv_offset = pte_offset_kernel k, lv_stop = pte_none k,
       lv_leaf = (\<lambda>_. True), lv_pfn = pte_pfn k, lv_mask = page_mask k\<rparr>]"

definition visited_of :: "walk_vars \<Rightarrow> (u64 \<times> u64) list" where
  "visited_of w = take (unat (w_levels w))
     [(w_pgdp w, w_pgd w), (w_p4dp w, w_p4d w), (w_pudp w, w_pud w), (w_pmdp w, w_pmd w),
      (w_ptep w, w_pte w)]"

definition unvisited_of :: "walk_vars \<Rightarrow> (u64 \<times> u64) list" where
  "unvisited_of w = drop (unat (w_levels w))
     [(w_pgdp w, w_pgd w), (w_p4dp w, w_p4d w), (w_pudp w, w_pud w), (w_pmdp w, w_pmd w),
      (w_ptep w, w_pte w)]"

section \<open>User space: /proc/PID/pagemap\<close>

definition PM_PFRAME_BITS :: nat where "PM_PFRAME_BITS = 55"
definition PM_SWAP :: u64 where "PM_SWAP = push_bit 62 1"
definition PM_PRESENT :: u64 where "PM_PRESENT = push_bit 63 1"

record pagemap_env =
  pm_open :: int           \<comment> \<open>\<open>open\<close>: the descriptor or -1\<close>
  pm_open_errno :: int
  pm_lseek :: int          \<comment> \<open>\<open>lseek\<close>\<close>
  pm_lseek_errno :: int
  pm_read :: int           \<comment> \<open>\<open>read\<close>: bytes read or -1\<close>
  pm_read_errno :: int
  pm_entry :: u64          \<comment> \<open>the entry the read stores\<close>

definition decode_entry :: "u64 \<Rightarrow> u64 \<Rightarrow> u64 \<Rightarrow> int \<times> u64" where
  "decode_entry page_size vaddr entry =
     (if entry AND PM_SWAP \<noteq> 0 then (ENOMEM, 0)
      else let pfn = entry AND (push_bit PM_PFRAME_BITS 1 - 1)
           in (0, pfn * page_size + vaddr mod page_size))"

definition pagemap_offset :: "u64 \<Rightarrow> u64 \<Rightarrow> int" where
  "pagemap_offset page_size vaddr = sint ((vaddr div page_size) * 8)"

definition pagemap_lookup :: "u64 \<Rightarrow> u64 \<Rightarrow> pagemap_env \<Rightarrow> int \<times> u64 option \<times> int rev list" where
  \<comment> \<open>return value, what is stored through \<open>pa\<close>, and the descriptors opened and closed\<close>
  "pagemap_lookup page_size vaddr e =
     (let fd = pm_open e in
      if fd = - 1 then (pm_open_errno e, None, [])
      else
        let offset = pagemap_offset page_size vaddr in
        if pm_lseek e = - 1 then (pm_lseek_errno e, None, [Acquire fd, Release fd])
        else if pm_lseek e \<noteq> offset then (EIO, None, [Acquire fd, Release fd])
        else if pm_read e = - 1 then (pm_read_errno e, None, [Acquire fd, Release fd])
        else if pm_read e \<noteq> 8 then (EIO, None, [Acquire fd, Release fd])
        else case decode_entry page_size vaddr (pm_entry e) of
               (ret, a) \<Rightarrow> (ret, Some a, [Acquire fd, Release fd]))"

definition translate_address :: "u64 \<Rightarrow> u64 \<Rightarrow> pagemap_env \<Rightarrow> int \<times> u64 option \<times> int rev list" where
  \<comment> \<open>\<open>va-to-pa.c\<close>; the first argument is \<open>g_page_size\<close>\<close>
  "translate_address g_page_size vaddr e = pagemap_lookup g_page_size vaddr e"

definition lookup_pagemap ::
  "u64 \<Rightarrow> u64 \<Rightarrow> u64 \<Rightarrow> pagemap_env \<Rightarrow> u64 \<times> int \<times> u64 option \<times> int rev list" where
  \<comment> \<open>\<open>issue_queries.c\<close>; the static \<open>page_size\<close> is initialised from \<open>sysconf\<close> on the first call\<close>
  "lookup_pagemap static_page_size sysconf_page_size vaddr e =
     (let page_size = (if static_page_size = 0 then sysconf_page_size else static_page_size)
      in (page_size, pagemap_lookup page_size vaddr e))"

section \<open>Lemmas\<close>

lemma get_mm_by_pid_trace:
  "get_mm_by_pid p n = (mm, t) \<Longrightarrow>
     run_trace {#} t = Some (case mm of None \<Rightarrow> {#} | Some m \<Rightarrow> {#Mm_ref m#})"
  by (auto simp: get_mm_by_pid_def Let_def split: option.splits)

lemma and_mask_mod: "(v::u64) AND mask n = v mod 2 ^ n"
  by (simp flip: take_bit_eq_mask take_bit_eq_mod)

lemma query_bal:
  "query_page_table k p q = (ret, q', t) \<Longrightarrow>
     balanced t \<and> (ret = 0 \<or> ret = - ESRCH \<and> q' = q) \<and>
     (ret = 0 \<longrightarrow> 1 \<le> unat (num_levels q') \<and> unat (num_levels q') \<le> 5)"
proof -
  assume run: "query_page_table k p q = (ret, q', t)"
  define mt where "mt = (if pid q \<noteq> 0 then get_mm_by_pid p (sint (pid q))
    else case get_task_mm p (current_task p) of None \<Rightarrow> (None, [])
         | Some mm \<Rightarrow> (Some mm, [Acquire (Mm_ref mm)]))"
  obtain mm t1 where mt: "mt = (mm, t1)" by (cases mt)
  have tr: "run_trace {#} t1 = Some (case mm of None \<Rightarrow> {#} | Some m \<Rightarrow> {#Mm_ref m#})"
    using mt get_mm_by_pid_trace [of p "sint (pid q)" mm t1]
    by (auto simp: mt_def split: if_splits option.splits)
  have levels: "1 \<le> unat (w_levels (walk k a b)) \<and> unat (w_levels (walk k a b)) \<le> 5" for a b
    by (simp add: walk_def walk_start_def Let_def)
  show ?thesis
  proof (cases mm)
    case None
    then show ?thesis
      using run tr by (simp add: query_page_table_def balanced_def mt flip: mt_def)
  next
    case (Some m)
    then show ?thesis
      using run tr levels
      by (auto simp: query_page_table_def balanced_def mt run_trace_append Let_def simp flip: mt_def)
  qed
qed

lemma walker_ioctl_facts:
  "walker_ioctl k p u cmd uq = (ret, uq', t) \<Longrightarrow>
     (ret = - ENOTTY \<longleftrightarrow> cmd \<noteq> PAGE_TABLE_QUERY) \<and>
     (uq' \<noteq> uq \<longrightarrow> ret = 0 \<or> ret = - EFAULT \<and> \<not> copy_out_ok u) \<and>
     (ret = 0 \<longrightarrow> pid uq' = pid uq \<and> va uq' = va uq \<and> 1 \<le> unat (num_levels uq') \<and>
        unat (num_levels uq') \<le> 5 \<and> query_page_table k p uq = (0, uq', t)) \<and>
     balanced t"
proof -
  assume run: "walker_ioctl k p u cmd uq = (ret, uq', t)"
  obtain r q' t' where q: "query_page_table k p uq = (r, q', t')" by (metis prod_cases3)
  have frame: "pid q' = pid uq \<and> va q' = va uq"
    using q by (auto simp: query_page_table_def Let_def split: prod.splits option.splits if_splits)
  from query_bal [OF q] run q frame show ?thesis
    by (auto simp: walker_ioctl_def balanced_def split: if_splits)
qed

lemma walk_levels_walk:
  "walk_levels (read_entry k) (page_shift k) (arch_levels k) pgd_table vaddr = (vs, r) \<Longrightarrow>
     vs = visited_of (walk k pgd_table vaddr) \<and>
     unat (w_levels (walk k pgd_table vaddr)) = length vs \<and>
     list_all (\<lambda>x. x = (0, 0)) (unvisited_of (walk k pgd_table vaddr)) \<and>
     w_paddr (walk k pgd_table vaddr) = (case r of None \<Rightarrow> 0 | Some a \<Rightarrow> a)"
proof -
  let ?p1 = "pgd_offset k pgd_table vaddr" let ?e1 = "read_entry k ?p1"
  let ?p2 = "p4d_offset k ?p1 vaddr" let ?e2 = "read_entry k ?p2"
  let ?p3 = "pud_offset k ?p2 vaddr" let ?e3 = "read_entry k ?p3"
  let ?p4 = "pmd_offset k ?p3 vaddr" let ?e4 = "read_entry k ?p4"
  let ?p5 = "pte_offset_kernel k ?p4 vaddr" let ?e5 = "read_entry k ?p5"
  note defs = arch_levels_def visited_of_def unvisited_of_def walk_def walk_start_def
    leaf_address_def Let_def
  assume run: "walk_levels (read_entry k) (page_shift k) (arch_levels k) pgd_table vaddr = (vs, r)"
  consider "pgd_none k ?e1 \<or> pgd_bad k ?e1"
    | "\<not> (pgd_none k ?e1 \<or> pgd_bad k ?e1)" "p4d_none k ?e2 \<or> p4d_bad k ?e2"
    | "\<not> (pgd_none k ?e1 \<or> pgd_bad k ?e1)" "\<not> (p4d_none k ?e2 \<or> p4d_bad k ?e2)"
      "pud_none k ?e3 \<or> pud_bad k ?e3"
    | "\<not> (pgd_none k ?e1 \<or> pgd_bad k ?e1)" "\<not> (p4d_none k ?e2 \<or> p4d_bad k ?e2)"
      "\<not> (pud_none k ?e3 \<or> pud_bad k ?e3)" "pud_leaf k ?e3"
    | "\<not> (pgd_none k ?e1 \<or> pgd_bad k ?e1)" "\<not> (p4d_none k ?e2 \<or> p4d_bad k ?e2)"
      "\<not> (pud_none k ?e3 \<or> pud_bad k ?e3)" "\<not> pud_leaf k ?e3" "pmd_none k ?e4 \<or> pmd_bad k ?e4"
    | "\<not> (pgd_none k ?e1 \<or> pgd_bad k ?e1)" "\<not> (p4d_none k ?e2 \<or> p4d_bad k ?e2)"
      "\<not> (pud_none k ?e3 \<or> pud_bad k ?e3)" "\<not> pud_leaf k ?e3"
      "\<not> (pmd_none k ?e4 \<or> pmd_bad k ?e4)" "pmd_leaf k ?e4"
    | "\<not> (pgd_none k ?e1 \<or> pgd_bad k ?e1)" "\<not> (p4d_none k ?e2 \<or> p4d_bad k ?e2)"
      "\<not> (pud_none k ?e3 \<or> pud_bad k ?e3)" "\<not> pud_leaf k ?e3"
      "\<not> (pmd_none k ?e4 \<or> pmd_bad k ?e4)" "\<not> pmd_leaf k ?e4"
    by blast
  then show ?thesis
  proof cases
    case 7
    then show ?thesis using run by (cases "pte_none k ?e5") (auto simp: defs)
  qed (use run in \<open>auto simp: defs\<close>)
qed







text \<open>Both sides release what they take.\<close>

interpretation ioctl_call: clean_call "\<lambda>(k, p, u, cmd, uq). snd (snd (walker_ioctl k p u cmd uq))"
proof (unfold_locales, clarify)
  fix k p u cmd uq
  obtain ret uq' t where w: "walker_ioctl k p u cmd uq = (ret, uq', t)" by (metis prod_cases3)
  with walker_ioctl_facts [OF w] show "balanced (snd (snd (walker_ioctl k p u cmd uq)))" by simp
qed

interpretation pagemap_call: clean_call "\<lambda>(page_size, vaddr, e). snd (snd (pagemap_lookup page_size vaddr e))"
  by unfold_locales (auto simp: pagemap_lookup_def trace_eval Let_def split: prod.splits)

section \<open>A small machine, for the witnesses\<close>

definition demo_arch :: arch where
  "demo_arch = \<lparr>page_shift = 12, page_offset = 0xffff888000000000, pud_mask = NOT (mask 30),
     pmd_mask = NOT (mask 21), page_mask = NOT (mask 12), read_entry = (\<lambda>p. p + 1),
     pgd_offset = (\<lambda>t v. t + 8), p4d_offset = (\<lambda>t v. t + 8), pud_offset = (\<lambda>t v. t + 8),
     pmd_offset = (\<lambda>t v. t + 8), pte_offset_kernel = (\<lambda>t v. t + 8), pgd_none = (\<lambda>e. e = 0),
     pgd_bad = (\<lambda>e. False), p4d_none = (\<lambda>e. e = 0), p4d_bad = (\<lambda>e. False),
     pud_none = (\<lambda>e. e = 0), pud_bad = (\<lambda>e. False), pud_leaf = (\<lambda>e. False), pud_pfn = (\<lambda>e. 0),
     pmd_none = (\<lambda>e. e = 0), pmd_bad = (\<lambda>e. False), pmd_leaf = (\<lambda>e. False), pmd_pfn = (\<lambda>e. 0),
     pte_none = (\<lambda>e. e = 0), pte_pfn = (\<lambda>e. 5)\<rparr>"

definition demo_proc :: proc_env where
  "demo_proc = \<lparr>find_get_pid = (\<lambda>n. if n = 42 then Some 1 else None), get_pid_task = Some,
     get_task_mm = Some, current_task = 9, mm_pgd = (\<lambda>_. 0x1000)\<rparr>"

definition demo_query :: page_table_query where
  "demo_query = \<lparr>pid = 42, va = 0x2345, num_levels = 0, pgd_table_kla = 0, pgd_entry_kla = 0,
     p4d_entry_kla = 0, pud_entry_kla = 0, pmd_entry_kla = 0, pte_entry_kla = 0, pgd_entry = 0,
     p4d_entry = 0, pud_entry = 0, pmd_entry = 0, pte_entry = 0, pa = 0, kla_start = 0\<rparr>"

definition demo_pagemap :: pagemap_env where
  "demo_pagemap = \<lparr>pm_open = 3, pm_open_errno = 0, pm_lseek = 16, pm_lseek_errno = 0, pm_read = 8,
     pm_read_errno = 0, pm_entry = 0\<rparr>"

lemma demo_walk: "walk demo_arch 0x1000 0x2345 = \<lparr>w_levels = 5, w_pgdp = 0x1008, w_p4dp = 0x1010,
    w_pudp = 0x1018, w_pmdp = 0x1020, w_ptep = 0x1028, w_pgd = 0x1009, w_p4d = 0x1011,
    w_pud = 0x1019, w_pmd = 0x1021, w_pte = 0x1029, w_paddr = 0x5345\<rparr>"
  by (simp add: walk_def walk_start_def demo_arch_def and_mask_mod Let_def)

section \<open>Properties\<close>

text \<open>
  C4: the unrolled walk computes exactly what the generic walker over the five levels does: the
  entries it reports are those visited, in order, the fields of levels not reached are zero, and
  the physical address is the leaf's (zero when the walk ends at a hole).
\<close>
theorem walk_refines_levels:
  "walk_levels (read_entry k) (page_shift k) (arch_levels k) pgd_table vaddr = (vs, r) \<Longrightarrow>
     vs = visited_of (walk k pgd_table vaddr) \<and>
     unat (w_levels (walk k pgd_table vaddr)) = length vs \<and>
     list_all (\<lambda>x. x = (0, 0)) (unvisited_of (walk k pgd_table vaddr)) \<and>
     w_paddr (walk k pgd_table vaddr) = (case r of None \<Rightarrow> 0 | Some a \<Rightarrow> a)"
  by (rule walk_levels_walk)

theorem walk_refines_levels_witness:
  "length (fst (walk_levels (read_entry demo_arch) 12 (arch_levels demo_arch) 0x1000 0x2345)) = 5 \<and>
   (case snd (walk_levels (read_entry demo_arch) 12 (arch_levels demo_arch) 0x1000 0x2345) of
      None \<Rightarrow> 0 | Some a \<Rightarrow> a) = 0x5345"
proof -
  have "page_shift demo_arch = 12" by (simp add: demo_arch_def)
  with walk_refines_levels [OF prod.collapse [symmetric], of demo_arch "0x1000" "0x2345"]
  show ?thesis by (simp add: demo_walk visited_of_def)
qed

text \<open>
  \<open>query_page_table\<close> drops every reference and lock it takes, on every path; it fails only
  with \<open>-ESRCH\<close>, when the process has no address space, and then leaves the query untouched.
\<close>
theorem query_page_table_balanced:
  "query_page_table k p q = (ret, q', t) \<Longrightarrow>
     balanced t \<and> (ret = 0 \<or> ret = - ESRCH \<and> q' = q) \<and>
     (ret = 0 \<longrightarrow> 1 \<le> unat (num_levels q') \<and> unat (num_levels q') \<le> 5)"
  by (rule query_bal)

theorem query_page_table_balanced_witness:
  "fst (query_page_table demo_arch demo_proc demo_query) = 0 \<and>
   balanced (snd (snd (query_page_table demo_arch demo_proc demo_query)))"
proof -
  obtain ret q t where run: "query_page_table demo_arch demo_proc demo_query = (ret, q, t)"
    by (metis prod_cases3)
  moreover have "fst (query_page_table demo_arch demo_proc demo_query) = 0"
    by (simp add: query_page_table_def get_mm_by_pid_def demo_proc_def demo_query_def Let_def)
  ultimately show ?thesis using query_page_table_balanced [OF run] by simp
qed



text \<open>
  kernel walk and pagemap agree. For a page mapped by a last-level entry whose frame number is
  what pagemap shows, on a machine whose page mask and page size are those of the shift, user space
  computes the physical address that the walk reports.
\<close>
theorem pagemap_matches_walk:
  assumes "page_mask k = NOT (mask (page_shift k))" and "page_size = 2 ^ page_shift k"
    and "w_levels (walk k pgd_table vaddr) = 5" and "\<not> pte_none k (w_pte (walk k pgd_table vaddr))"
    and "entry AND PM_SWAP = 0"
    and "entry AND (push_bit PM_PFRAME_BITS 1 - 1) = pte_pfn k (w_pte (walk k pgd_table vaddr))"
  shows "decode_entry page_size vaddr entry = (0, w_paddr (walk k pgd_table vaddr))"
proof -
  have "w_paddr (walk k pgd_table vaddr) =
      push_bit (page_shift k) (pte_pfn k (w_pte (walk k pgd_table vaddr))) + (vaddr AND NOT (page_mask k))"
    using assms(3,4) by (auto simp: walk_def walk_start_def Let_def split: if_splits)
  then show ?thesis
    using assms(1,2,5,6) by (simp add: decode_entry_def and_mask_mod push_bit_eq_mult del: push_bit_numeral)
qed

theorem pagemap_matches_walk_witness:
  "decode_entry (2 ^ 12) 0x2345 (PM_PRESENT OR 5) = (0, 0x5345)"
proof -
  have "page_mask demo_arch = NOT (mask (page_shift demo_arch))"
    and "(2 ^ 12 :: u64) = 2 ^ page_shift demo_arch"
    and "\<not> pte_none demo_arch (w_pte (walk demo_arch 0x1000 0x2345))"
    and "(PM_PRESENT OR 5) AND PM_SWAP = 0"
    and "(PM_PRESENT OR 5) AND (push_bit PM_PFRAME_BITS 1 - 1) =
      pte_pfn demo_arch (w_pte (walk demo_arch 0x1000 0x2345))"
    by (simp_all add: demo_walk) (simp_all add: demo_arch_def PM_PRESENT_def PM_SWAP_def PM_PFRAME_BITS_def)
  from pagemap_matches_walk [OF this(1,2) _ this(3-5)] show ?thesis by (simp add: demo_walk)
qed

text \<open>
  the pagemap readers close the descriptor they open on every path, store an address exactly
  when the entry was read completely, and never test the present bit: for a page that is not mapped
  at all (entry 0) they report success and the page offset as the physical address.
\<close>
theorem pagemap_lookup_result:
  "(case pagemap_lookup page_size vaddr e of (ret, out, t) \<Rightarrow>
      balanced t \<and>
      (out \<noteq> None) = (pm_open e \<noteq> - 1 \<and> pm_lseek e \<noteq> - 1 \<and>
         pm_lseek e = pagemap_offset page_size vaddr \<and> pm_read e = 8) \<and>
      (out = Some (vaddr mod page_size) \<and> ret = 0 \<or> out = None \<or> pm_entry e \<noteq> 0))"
  by (auto simp: pagemap_lookup_def decode_entry_def balanced_def Let_def)

theorem pagemap_lookup_result_witness:
  "fst (snd (pagemap_lookup 4096 0x2345 demo_pagemap)) = Some 0x345"
  using pagemap_lookup_result [where page_size = 4096 and vaddr = "0x2345" and e = demo_pagemap]
  by (auto simp: demo_pagemap_def pagemap_offset_def split: prod.splits)

end
