(* ===== verification/PageQuery.thy ===== *)
theory PageQuery
  imports PageTable
begin

text \<open>
  The programs around the page table walker: init and exit of the module (\<open>page_table_walker.c\<close>), the
  program \<open>issue_queries.c\<close> that asks the module about seven of its own addresses and compares the answers
  with pagemap, and \<open>linux-c/va-to-pa.c\<close>, which translates one address before and after its first access.
  The module's handler is \<open>walker_ioctl\<close> itself; between two queries the page tables may have changed, so
  each query has its own kernel state.
\<close>

section \<open>Init and exit of the module\<close>

definition walker_init :: "int \<Rightarrow> bool \<Rightarrow> int \<times> bool" where
  \<comment> \<open>what \<open>misc_register\<close> returns, and whether the device is registered\<close>
  "walker_init registered device = (if registered \<noteq> 0 then (registered, device) else (0, True))"

definition walker_exit :: "bool \<Rightarrow> bool" where "walker_exit device = False"

section \<open>issue\_queries.c\<close>

definition zero_query :: page_table_query where
  "zero_query = \<lparr>pid = 0, va = 0, num_levels = 0, pgd_table_kla = 0, pgd_entry_kla = 0, p4d_entry_kla = 0,
     pud_entry_kla = 0, pmd_entry_kla = 0, pte_entry_kla = 0, pgd_entry = 0, p4d_entry = 0, pud_entry = 0,
     pmd_entry = 0, pte_entry = 0, pa = 0, kla_start = 0\<rparr>"

record query_env =
  dev_open :: int          \<comment> \<open>\<open>open (DEVICE_PATH, O_RDWR)\<close>\<close>
  kernel :: arch
  procs :: proc_env
  user_copy :: user_env
  pagemap :: pagemap_env

definition sys_ioctl :: "int \<Rightarrow> int" where
  \<comment> \<open>the C library turns an error of the handler into -1\<close>
  "sys_ioctl ret = (if ret < 0 then - 1 else ret)"

text \<open>What \<open>print_page_table_query\<close> shows: the description, the query, the physical addresses of the five
  entries, and what pagemap says.\<close>

record query_report =
  described :: string
  answer :: page_table_query
  entry_pas :: "u64 list"
  pagemap_result :: "int \<times> u64 option"

definition print_page_table_query :: "u64 \<Rightarrow> u64 \<Rightarrow> query_env \<Rightarrow> page_table_query \<Rightarrow> string \<Rightarrow>
    u64 \<times> query_report \<times> int rev list" where
  \<comment> \<open>the static \<open>page_size\<close> and the one of \<open>sysconf\<close>; the new static \<open>page_size\<close> comes back\<close>
  "print_page_table_query static_page_size page_size e q desc =
     (case lookup_pagemap static_page_size page_size (va q) (pagemap e) of (ps, ret, out, t) \<Rightarrow>
        (ps, \<lparr>described = desc, answer = q,
           entry_pas = map (\<lambda>kla. kla - kla_start q)
             [pgd_entry_kla q, p4d_entry_kla q, pud_entry_kla q, pmd_entry_kla q, pte_entry_kla q],
           pagemap_result = (ret, out)\<rparr>, t))"

definition query_va :: "u64 \<Rightarrow> u64 \<Rightarrow> query_env \<Rightarrow> u64 \<Rightarrow> string \<Rightarrow>
    int \<times> u64 \<times> query_report list \<times> int rev list" where
  "query_va static_page_size page_size e vaddr desc =
     (let fd = dev_open e in
      if fd < 0 then (- 1, static_page_size, [], [])
      else case walker_ioctl (kernel e) (procs e) (user_copy e) PAGE_TABLE_QUERY (zero_query\<lparr>va := vaddr\<rparr>) of
        (kret, q, _) \<Rightarrow> let ret = sys_ioctl kret in
          if ret < 0 then (ret, static_page_size, [], [Acquire fd, Release fd])
          else case print_page_table_query static_page_size page_size e q desc of
            (ps, report, t) \<Rightarrow> (0, ps, [report], [Acquire fd, Release fd] @ t))"

fun run_queries :: "u64 \<Rightarrow> u64 \<Rightarrow> (query_env \<times> u64 \<times> string) list \<Rightarrow> int \<times> query_report list \<times> int rev list" where
  \<comment> \<open>\<open>ret = query_va (...); if (ret) return ret;\<close> repeated\<close>
  "run_queries static_page_size page_size [] = (0, [], [])"
| "run_queries static_page_size page_size ((e, vaddr, desc) # qs) =
     (case query_va static_page_size page_size e vaddr desc of (ret, ps, reports, t) \<Rightarrow>
        if ret \<noteq> 0 then (ret, reports, t)
        else case run_queries ps page_size qs of (ret', reports', t') \<Rightarrow> (ret', reports @ reports', t @ t'))"

record program_addresses =
  function_address :: u64
  global_address :: u64
  stack_address :: u64

definition issue_queries_main :: "u64 \<Rightarrow> program_addresses \<Rightarrow> u64 option \<Rightarrow> (nat \<Rightarrow> query_env) \<Rightarrow> int \<Rightarrow>
    int \<times> query_report list \<times> int rev list" where
  \<comment> \<open>the result of \<open>mmap\<close>, the state at each query, the result of \<open>munmap\<close>\<close>
  "issue_queries_main page_size a buffer e unmapped = (case buffer of
     None \<Rightarrow> (- 1, [], [])
   | Some ch \<Rightarrow>
       (case run_queries 0 page_size
          [(e 0, 0, ''null''), (e 1, function_address a, ''function_pointer''), (e 2, global_address a, ''global_variable''),
           (e 3, stack_address a, ''stack_variable''), (e 4, ch, ''fresh_heap_variable''), (e 5, ch, ''read_heap_variable''),
           (e 6, ch, ''written_heap_variable'')] of
          (ret, reports, t) \<Rightarrow>
            if ret \<noteq> 0 then (ret, reports, t)
            else if unmapped \<noteq> 0 then (- 1, reports, t) else (0, reports, t)))"

section \<open>va-to-pa.c\<close>

record translate_calls =
  g_page_size :: u64
  mmap_buffer :: "int + u64"        \<comment> \<open>\<open>errno\<close> or the address\<close>
  before_access :: pagemap_env
  after_access :: pagemap_env
  signal_errno :: "int option"      \<comment> \<open>\<open>Some\<close>: \<open>signal\<close> fails\<close>

definition va_to_pa_main :: "translate_calls \<Rightarrow> int \<times> (int \<times> u64 option) list \<times> int rev list" where
  \<comment> \<open>the exit status and what both translations gave\<close>
  "va_to_pa_main c = (case mmap_buffer c of
     Inl e \<Rightarrow> (e, [], [])
   | Inr buffer \<Rightarrow>
       (case translate_address (g_page_size c) buffer (before_access c) of (ret1, pa1, t1) \<Rightarrow>
        case translate_address (g_page_size c) buffer (after_access c) of (ret2, pa2, t2) \<Rightarrow>
          (case signal_errno c of Some e \<Rightarrow> e | None \<Rightarrow> ret2, [(ret1, pa1), (ret2, pa2)], t1 @ t2)))"

section \<open>Lemmas\<close>

lemma pagemap_lookup_balanced: "pagemap_lookup ps vaddr e = (ret, out, t) \<Longrightarrow> balanced t"
  using pagemap_call.call_balanced [of "(ps, vaddr, e)"] by simp

definition query_answers :: "query_env \<Rightarrow> u64 \<Rightarrow> page_table_query option" where
  \<comment> \<open>the module's answer about an address of the calling process, if it gives one\<close>
  "query_answers e vaddr = (if dev_open e < 0 then None
     else case walker_ioctl (kernel e) (procs e) (user_copy e) PAGE_TABLE_QUERY (zero_query\<lparr>va := vaddr\<rparr>) of
       (kret, q, _) \<Rightarrow> if kret = 0 then Some q else None)"

lemma walker_ioctl_nonpos: "walker_ioctl k p u cmd uq = (ret, uq', t) \<Longrightarrow> ret \<le> 0"
  by (auto simp: walker_ioctl_def query_page_table_def Let_def split: if_splits prod.splits option.splits)

lemma query_va_result:
  "query_va sp ps e vaddr desc = (ret, sp', reports, t) \<Longrightarrow> balanced t \<and>
    (case query_answers e vaddr of
       None \<Rightarrow> ret = - 1 \<and> reports = []
     | Some q \<Rightarrow> ret = 0 \<and> (\<exists>r. reports = [r] \<and> described r = desc \<and> answer r = q \<and> va q = vaddr \<and> pid q = 0 \<and>
         unat (num_levels q) \<in> {1..5}))"
proof -
  assume run: "query_va sp ps e vaddr desc = (ret, sp', reports, t)"
  obtain kret q kt where w: "walker_ioctl (kernel e) (procs e) (user_copy e) PAGE_TABLE_QUERY (zero_query\<lparr>va := vaddr\<rparr>) = (kret, q, kt)"
    by (metis prod_cases3)
  note facts = walker_ioctl_facts [OF w] walker_ioctl_nonpos [OF w]
  obtain ps' r out pt where p: "lookup_pagemap sp ps (va q) (pagemap e) = (ps', r, out, pt)" by (metis prod_cases4)
  have "balanced pt" using p pagemap_lookup_balanced by (auto simp: lookup_pagemap_def Let_def)
  then have bal: "balanced ([Acquire (dev_open e), Release (dev_open e)] @ pt)"
    by (intro balanced_append) (simp_all add: balanced_def)
  have vars: "pid (zero_query\<lparr>va := vaddr\<rparr>) = 0" "va (zero_query\<lparr>va := vaddr\<rparr>) = vaddr"
    by (simp_all add: zero_query_def)
  consider "dev_open e < 0" | "\<not> dev_open e < 0" "kret = 0" | "\<not> dev_open e < 0" "kret < 0"
    using facts(2) by linarith
  then show ?thesis
  proof cases
    case 1
    then show ?thesis using run by (auto simp: query_va_def query_answers_def balanced_def)
  next
    case 2
    have "query_answers e vaddr = Some q" using 2 by (simp add: query_answers_def w)
    moreover have "ret = 0" "t = [Acquire (dev_open e), Release (dev_open e)] @ pt"
      "\<exists>r. reports = [r] \<and> described r = desc \<and> answer r = q"
      using run 2 by (auto simp: query_va_def w print_page_table_query_def p sys_ioctl_def Let_def)
    moreover have "va q = vaddr" "pid q = 0" "unat (num_levels q) \<in> {1..5}"
      using facts(1) 2(2) vars by auto
    ultimately show ?thesis using bal by simp
  next
    case 3
    then have "query_answers e vaddr = None" by (simp add: query_answers_def w)
    moreover have "ret = - 1" "reports = []" "t = [Acquire (dev_open e), Release (dev_open e)]"
      using run 3 by (auto simp: query_va_def w sys_ioctl_def Let_def)
    ultimately show ?thesis by (simp add: balanced_def)
  qed
qed

fun answered :: "(query_env \<times> u64 \<times> string) list \<Rightarrow> (u64 \<times> string \<times> page_table_query) list" where
  \<comment> \<open>the answers up to the first query that has none\<close>
  "answered [] = []"
| "answered ((e, vaddr, desc) # qs) = (case query_answers e vaddr of
     None \<Rightarrow> [] | Some q \<Rightarrow> (vaddr, desc, q) # answered qs)"

definition reports_ok :: "(u64 \<times> string \<times> page_table_query) list \<Rightarrow> query_report list \<Rightarrow> bool" where
  "reports_ok as rs \<longleftrightarrow> list_all2 (\<lambda>(vaddr, desc, q) r. described r = desc \<and> answer r = q \<and> va q = vaddr \<and> pid q = 0 \<and>
     unat (num_levels q) \<in> {1..5}) as rs"

lemma run_queries_result:
  "run_queries sp ps qs = (ret, reports, t) \<Longrightarrow> balanced t \<and> reports_ok (answered qs) reports \<and>
    ret = (if length (answered qs) = length qs then 0 else - 1)"
proof (induction sp ps qs arbitrary: ret reports t rule: run_queries.induct)
  case (1 sp ps)
  then show ?case by (simp add: balanced_def reports_ok_def)
next
  case (2 sp ps e vaddr desc qs)
  obtain r1 sp' rs1 t1 where v: "query_va sp ps e vaddr desc = (r1, sp', rs1, t1)" by (metis prod_cases4)
  note q = query_va_result [OF v]
  show ?case
  proof (cases "query_answers e vaddr")
    case None
    then show ?thesis using "2.prems" v q by (auto simp: reports_ok_def)
  next
    case (Some a)
    then obtain r where r: "r1 = 0" "rs1 = [r]" "reports_ok [(vaddr, desc, a)] [r]" using q by (auto simp: reports_ok_def)
    obtain ret' rs' t' where rest: "run_queries sp' ps qs = (ret', rs', t')" by (metis prod_cases3)
    from "2.IH" [OF v [symmetric] refl refl _ rest] r(1) have
      "balanced t'" "reports_ok (answered qs) rs'" "ret' = (if length (answered qs) = length qs then 0 else - 1)" by simp_all
    then show ?thesis using "2.prems" v q Some r rest balanced_append [of t1 t'] by (auto simp: reports_ok_def)
  qed
qed

lemma reports_ok_length: "reports_ok as rs \<Longrightarrow> length rs = length as"
  by (simp add: reports_ok_def list_all2_lengthD)

interpretation query_call: clean_call "\<lambda>(sp, ps, e, vaddr, desc). snd (snd (snd (query_va sp ps e vaddr desc)))"
proof (unfold_locales, clarify)
  fix sp ps e vaddr desc
  obtain ret sp' reports t where q: "query_va sp ps e vaddr desc = (ret, sp', reports, t)" by (metis prod_cases4)
  with query_va_result [OF q] show "balanced (snd (snd (snd (query_va sp ps e vaddr desc))))" by simp
qed

section \<open>Walk and pagemap\<close>


lemma word_take_bit_add: "take_bit s (take_bit s a + take_bit s b) = take_bit s (a + b :: u64)"
  by transfer (simp add: take_bit_add)











section \<open>Properties\<close>

text \<open>
  C15: the query program end to end, with the module's own handler behind the device. It asks about NULL, a
  function, a global, a stack variable and three times about the mapped byte, in this order, and prints exactly the
  answers up to the first query that fails; each printed answer is for the address asked about, belongs to the
  calling process and has one to five levels. It returns 0 exactly if the mapping, all seven
  queries and the unmapping succeed, -1 otherwise, and closes every descriptor it opens.
\<close>
theorem issue_queries_result:
  assumes "issue_queries_main page_size a buffer e unmapped = (ret, reports, t)"
  shows "balanced t \<and> ret \<in> {0, - 1} \<and>
    (case buffer of None \<Rightarrow> ret = - 1 \<and> reports = []
     | Some ch \<Rightarrow>
        (let asked = zip (map e [0..<7]) (zip [0, function_address a, global_address a, stack_address a, ch, ch, ch]
           [''null'', ''function_pointer'', ''global_variable'', ''stack_variable'', ''fresh_heap_variable'',
            ''read_heap_variable'', ''written_heap_variable''])
         in reports_ok (answered asked) reports \<and> (ret = 0 \<longleftrightarrow> length reports = 7 \<and> unmapped = 0)))"
proof (cases buffer)
  case None
  then show ?thesis using assms by (simp add: issue_queries_main_def balanced_def)
next
  case (Some ch)
  define asked where "asked = [(e 0, 0, ''null''), (e 1, function_address a, ''function_pointer''),
     (e 2, global_address a, ''global_variable''), (e 3, stack_address a, ''stack_variable''),
     (e 4, ch, ''fresh_heap_variable''), (e 5, ch, ''read_heap_variable''), (e 6, ch, ''written_heap_variable'')]"
  have seven: "[0..<7] = [0, 1, 2, 3, 4, 5, 6 :: nat]" by (simp add: upt_rec)
  have zip: "zip (map e [0..<7]) (zip [0, function_address a, global_address a, stack_address a, ch, ch, ch]
           [''null'', ''function_pointer'', ''global_variable'', ''stack_variable'', ''fresh_heap_variable'',
            ''read_heap_variable'', ''written_heap_variable'']) = asked"
    unfolding seven asked_def by (simp only: list.map zip_Cons_Cons zip.simps(1))
  obtain ret' rs t' where q: "run_queries 0 page_size asked = (ret', rs, t')" by (metis prod_cases3)
  note r = run_queries_result [OF q]
  have "length asked = 7" by (simp add: asked_def)
  moreover have "length rs = length (answered asked)" using r reports_ok_length by blast
  ultimately have ret': "ret' = (if length rs = 7 then 0 else - 1)" using r by simp
  have "(ret, reports, t) = (if ret' \<noteq> 0 then (ret', rs, t') else if unmapped \<noteq> 0 then (- 1, rs, t') else (0, rs, t'))"
    using assms by (simp only: issue_queries_main_def Some option.case asked_def [symmetric] q prod.case)
  then have "ret = (if length rs = 7 \<and> unmapped = 0 then 0 else - 1)" "reports = rs" "t = t'"
    by (simp_all add: ret' split: if_splits)
  moreover have "balanced t'" "reports_ok (answered asked) rs" using r by blast+
  ultimately show ?thesis unfolding Some option.case Let_def zip by (intro conjI) (simp_all split: if_splits)
qed


text \<open>
  what the translation program returns. It returns the \<open>errno\<close> of a failed mapping or of a failed \<open>signal\<close>,
  and otherwise the result of the second translation alone; the descriptors of both translations are closed. If
  pagemap has the same entry before and after the first access, both translations give the same.
\<close>
theorem va_to_pa_result:
  "case va_to_pa_main c of (ret, results, t) \<Rightarrow> balanced t \<and>
     (case mmap_buffer c of
        Inl e \<Rightarrow> ret = e \<and> results = []
      | Inr buffer \<Rightarrow> (\<exists>r1 r2. results = [r1, r2] \<and>
          ret = (case signal_errno c of Some e \<Rightarrow> e | None \<Rightarrow> fst r2) \<and>
          (before_access c = after_access c \<longrightarrow> r1 = r2)))"
proof (cases "mmap_buffer c")
  case (Inl e)
  then show ?thesis by (simp add: va_to_pa_main_def balanced_def)
next
  case (Inr buffer)
  obtain r1 p1 t1 r2 p2 t2 where t: "pagemap_lookup (g_page_size c) buffer (before_access c) = (r1, p1, t1)"
    "pagemap_lookup (g_page_size c) buffer (after_access c) = (r2, p2, t2)" by (metis prod_cases3)
  then have "balanced (t1 @ t2)"
    using pagemap_call.two_calls_balanced [of "(g_page_size c, buffer, before_access c)" "(g_page_size c, buffer, after_access c)"] by simp
  with t Inr show ?thesis by (auto simp: va_to_pa_main_def translate_address_def split: option.split)
qed

section \<open>Witnesses\<close>

definition demo_query_env :: query_env where
  "demo_query_env = \<lparr>dev_open = 3, kernel = demo_arch, procs = demo_proc,
     user_copy = \<lparr>copy_in_ok = True, copy_out_ok = True, copy_out_part = (\<lambda>old new. old)\<rparr>, pagemap = demo_pagemap\<rparr>"

theorem issue_queries_result_witness:
  "\<exists>ret reports t. issue_queries_main 4096 \<lparr>function_address = 1, global_address = 2, stack_address = 3\<rparr> (Some 0x5000)
      (\<lambda>_. demo_query_env) 0 = (ret, reports, t) \<and> balanced t \<and> (ret = 0 \<longleftrightarrow> length reports = 7)"
proof -
  obtain ret reports t where m: "issue_queries_main 4096 \<lparr>function_address = 1, global_address = 2, stack_address = 3\<rparr>
      (Some 0x5000) (\<lambda>_. demo_query_env) 0 = (ret, reports, t)" by (metis prod_cases3)
  from issue_queries_result [OF m] m show ?thesis unfolding option.case Let_def by blast
qed



theorem va_to_pa_result_witness:
  "\<exists>r1 r2. snd (va_to_pa_main \<lparr>g_page_size = 4096, mmap_buffer = Inr 0x2345, before_access = demo_pagemap,
     after_access = demo_pagemap, signal_errno = None\<rparr>) = ([r1, r1], r2)"
  using va_to_pa_result [of "\<lparr>g_page_size = 4096, mmap_buffer = Inr 0x2345, before_access = demo_pagemap,
     after_access = demo_pagemap, signal_errno = None\<rparr>"]
  by (auto split: prod.splits)

end
