(* ===== verification/Racer.thy ===== *)
theory Racer
  imports Machine
begin

text \<open>
  The kernel semaphore demo \<open>kernel-module/semaphore/semaphore_demo.c\<close>: the module's init function
  starts \<open>NUM_WORKERS\<close> threads, each runs \<open>do_race\<close>. Init and every racer are sequential programs
  with a program counter; a step is one of them executing its next access to shared memory, so all
  interleavings are covered. The busy loop on \<open>action\<close> is a step that is enabled when the loop's
  condition fails. The kernel's semaphore is the argument \<open>sem_ops\<close>; what its documentation
  promises is the hypothesis \<open>counting_sema\<close>.
\<close>

section \<open>State and steps\<close>

definition NUM_WORKERS :: nat where "NUM_WORKERS = 6"

datatype race_action = RACER_WAIT | RACER_RACE | RACER_ABORT

datatype racer_pc =
    R_Absent                \<comment> \<open>no such thread\<close>
  | R_Enter                 \<comment> \<open>before \<open>atomic_inc_return(&ready_count)\<close>\<close>
  | R_Ready int             \<comment> \<open>with \<open>current_ready_count\<close>\<close>
  | R_Spin                  \<comment> \<open>\<open>while (action == RACER_WAIT)\<close>\<close>
  | R_Decide                \<comment> \<open>\<open>if (action == RACER_ABORT)\<close>\<close>
  | R_Down                  \<comment> \<open>before \<open>down\<close>\<close>
  | R_Locked                \<comment> \<open>before \<open>atomic_inc_return(&holder_count)\<close>\<close>
  | R_Critical int          \<comment> \<open>in the critical section, with \<open>ret\<close>\<close>
  | R_Up int                \<comment> \<open>before \<open>up\<close>\<close>
  | R_Put int               \<comment> \<open>before \<open>module_put\<close>\<close>
  | R_Exit int              \<comment> \<open>returned\<close>

datatype init_pc =
    I_Loop nat              \<comment> \<open>the head of the \<open>for\<close> loop\<close>
  | I_Create nat            \<comment> \<open>before \<open>kthread_run\<close>\<close>
  | I_Fail nat              \<comment> \<open>before \<open>module_put\<close> on the error path\<close>
  | I_Abort nat             \<comment> \<open>before \<open>action = RACER_ABORT\<close>\<close>
  | I_Return int

record 's sem_ops =
  sema_start :: 's                \<comment> \<open>after \<open>sema_init(&sem, 1)\<close>\<close>
  sema_down :: "'s \<Rightarrow> 's option"   \<comment> \<open>\<open>None\<close>: the caller has to wait\<close>
  sema_up :: "'s \<Rightarrow> 's"

record 's race =
  sem :: 's
  ready_count :: int
  holder_count :: int
  action :: race_action
  module_refs :: int
  racers :: "nat \<Rightarrow> racer_pc"
  init_at :: init_pc

definition demo_semaphore_start :: "'s sem_ops \<Rightarrow> 's race" where
  \<comment> \<open>the four initialisations at the head of \<open>demo_semaphore_init\<close>\<close>
  "demo_semaphore_start ops = \<lparr>sem = sema_start ops, ready_count = 0, holder_count = 0,
     action = RACER_WAIT, module_refs = 0, racers = (\<lambda>_. R_Absent), init_at = I_Loop 0\<rparr>"

definition set_racer :: "nat \<Rightarrow> racer_pc \<Rightarrow> 's race \<Rightarrow> 's race" where
  "set_racer w p s = s\<lparr>racers := (racers s)(w := p)\<rparr>"

text \<open>\<open>do_race\<close>: the next step of racer \<open>w\<close>, \<open>None\<close> while it waits.\<close>

definition do_race_step :: "'s sem_ops \<Rightarrow> nat \<Rightarrow> 's race \<Rightarrow> 's race option" where
  "do_race_step ops w s = (case racers s w of
     R_Absent \<Rightarrow> None
   | R_Enter \<Rightarrow> Some (set_racer w (R_Ready (ready_count s + 1))
       (s\<lparr>ready_count := ready_count s + 1\<rparr>))
   | R_Ready c \<Rightarrow> Some (set_racer w R_Spin
       (if c = int NUM_WORKERS then s\<lparr>action := RACER_RACE\<rparr> else s))
   | R_Spin \<Rightarrow> (if action s = RACER_WAIT then None else Some (set_racer w R_Decide s))
   | R_Decide \<Rightarrow> Some (set_racer w (if action s = RACER_ABORT then R_Put (- 1) else R_Down) s)
   | R_Down \<Rightarrow> (case sema_down ops (sem s) of None \<Rightarrow> None
       | Some x \<Rightarrow> Some (set_racer w R_Locked (s\<lparr>sem := x\<rparr>)))
   | R_Locked \<Rightarrow> Some (set_racer w (R_Critical (if holder_count s + 1 \<noteq> 1 then - 1 else 0))
       (s\<lparr>holder_count := holder_count s + 1\<rparr>))
   | R_Critical r \<Rightarrow> Some (set_racer w (R_Up r) (s\<lparr>holder_count := holder_count s - 1\<rparr>))
   | R_Up r \<Rightarrow> Some (set_racer w (R_Put r) (s\<lparr>sem := sema_up ops (sem s)\<rparr>))
   | R_Put r \<Rightarrow> Some (set_racer w (R_Exit r) (s\<lparr>module_refs := module_refs s - 1\<rparr>))
   | R_Exit r \<Rightarrow> None)"

text \<open>\<open>demo_semaphore_init\<close>: its next step; the argument says whether \<open>kthread_run\<close> succeeds.\<close>

definition init_step :: "bool \<Rightarrow> 's race \<Rightarrow> 's race option" where
  "init_step kthread_ok s = (case init_at s of
     I_Loop i \<Rightarrow> Some (if i < NUM_WORKERS
       then s\<lparr>module_refs := module_refs s + 1, init_at := I_Create i\<rparr>
       else s\<lparr>action := RACER_RACE, init_at := I_Return 0\<rparr>)
   | I_Create i \<Rightarrow> Some (if kthread_ok then set_racer i R_Enter (s\<lparr>init_at := I_Loop (i + 1)\<rparr>)
       else s\<lparr>init_at := I_Fail i\<rparr>)
   | I_Fail i \<Rightarrow> Some (s\<lparr>module_refs := module_refs s - 1, init_at := I_Abort i\<rparr>)
   | I_Abort i \<Rightarrow> Some (s\<lparr>action := RACER_ABORT, init_at := I_Return (- 1)\<rparr>)
   | I_Return r \<Rightarrow> None)"

inductive race_step :: "'s sem_ops \<Rightarrow> 's race \<Rightarrow> 's race \<Rightarrow> bool" for ops where
  racer: "do_race_step ops w s = Some t \<Longrightarrow> race_step ops s t"
| init: "init_step ok s = Some t \<Longrightarrow> race_step ops s t"

inductive_cases race_stepE: "race_step ops s t"

definition race_start :: "'s sem_ops \<Rightarrow> 's race \<Rightarrow> bool" where
  "race_start ops s \<longleftrightarrow> s = demo_semaphore_start ops"

text \<open>The documented behaviour of a counting semaphore initialised to 1; \<open>v\<close> reads its count.\<close>

definition counting_sema :: "'s sem_ops \<Rightarrow> ('s \<Rightarrow> nat) \<Rightarrow> bool" where
  "counting_sema ops v \<longleftrightarrow> v (sema_start ops) = 1 \<and>
     (\<forall>x. sema_down ops x = None \<longleftrightarrow> v x = 0) \<and>
     (\<forall>x y. sema_down ops x = Some y \<longrightarrow> v x = Suc (v y)) \<and>
     (\<forall>x. v (sema_up ops x) = Suc (v x))"

section \<open>Counting racers\<close>

definition count_pc :: "(racer_pc \<Rightarrow> bool) \<Rightarrow> (nat \<Rightarrow> racer_pc) \<Rightarrow> int" where
  "count_pc P f = (\<Sum>w < NUM_WORKERS. of_bool (P (f w)))"

lemma count_pc_upd [simp]:
  assumes "w < NUM_WORKERS"
  shows "count_pc P (f(w := x)) = count_pc P f + of_bool (P x) - of_bool (P (f w))"
proof -
  have "count_pc P g = of_bool (P (g w)) + (\<Sum>v \<in> {..<NUM_WORKERS} - {w}. of_bool (P (g v)))" for g
    unfolding count_pc_def using assms by (intro sum.remove) simp_all
  from this [of f] this [of "f(w := x)"] show ?thesis by simp
qed

lemma count_pc_nonneg: "0 \<le> count_pc P f"
  by (simp add: count_pc_def sum_nonneg)

lemma count_pc_pos:
  assumes "w < NUM_WORKERS" "P (f w)"
  shows "1 \<le> count_pc P f"
proof -
  have "(\<Sum>u \<in> {w}. of_bool (P (f u)) :: int) \<le> count_pc P f"
    unfolding count_pc_def using assms by (intro sum_mono2) auto
  then show ?thesis using assms by simp
qed

lemma count_pc_mono: "(\<And>w. P (f w) \<Longrightarrow> Q (f w)) \<Longrightarrow> count_pc P f \<le> count_pc Q f"
  unfolding count_pc_def by (intro sum_mono) auto

lemma count_pc_bound:
  assumes "\<And>w. P (f w) \<Longrightarrow> w < n"
  shows "count_pc P f \<le> int n"
proof -
  have "count_pc P f = (\<Sum>w \<in> {..<NUM_WORKERS} \<inter> {..<n}. of_bool (P (f w)))"
    unfolding count_pc_def using assms by (intro sum.mono_neutral_right) auto
  also have "\<dots> \<le> of_nat (card ({..<NUM_WORKERS} \<inter> {..<n})) * 1"
    by (intro sum_bounded_above) simp
  also have "\<dots> \<le> int n"
    using card_mono [of "{..<n}" "{..<NUM_WORKERS} \<inter> {..<n}"] by simp
  finally show ?thesis .
qed

lemma count_pc_two:
  assumes "w < NUM_WORKERS" "v < NUM_WORKERS" "w \<noteq> v" "P (f w)" "P (f v)"
  shows "2 \<le> count_pc P f"
proof -
  have "(\<Sum>u \<in> {w, v}. of_bool (P (f u)) :: int) \<le> count_pc P f"
    unfolding count_pc_def using assms by (intro sum_mono2) auto
  then show ?thesis using assms by simp
qed

lemma count_pc_None: "(\<forall>w. \<not> P (f w)) \<Longrightarrow> count_pc P f = 0"
  by (simp add: count_pc_def)

section \<open>The invariant\<close>

fun holds_sem :: "racer_pc \<Rightarrow> bool" where
  "holds_sem R_Locked = True" | "holds_sem (R_Critical r) = True" | "holds_sem (R_Up r) = True"
| "holds_sem _ = False"

fun in_critical :: "racer_pc \<Rightarrow> bool" where
  "in_critical (R_Critical r) = True" | "in_critical _ = False"

fun counted_ready :: "racer_pc \<Rightarrow> bool" where
  "counted_ready R_Absent = False" | "counted_ready R_Enter = False" | "counted_ready _ = True"

fun alive :: "racer_pc \<Rightarrow> bool" where
  "alive R_Absent = False" | "alive (R_Exit r) = False" | "alive _ = True"

fun created :: "init_pc \<Rightarrow> nat" where
  "created (I_Loop i) = i" | "created (I_Create i) = i" | "created (I_Fail i) = i"
| "created (I_Abort i) = i" | "created (I_Return r) = (if r = 0 then NUM_WORKERS else NUM_WORKERS - 1)"

fun failing :: "init_pc \<Rightarrow> bool" where
  "failing (I_Fail i) = True" | "failing (I_Abort i) = True" | "failing (I_Return r) = (r \<noteq> 0)"
| "failing _ = False"

fun init_ref :: "init_pc \<Rightarrow> int" where
  "init_ref (I_Create i) = 1" | "init_ref (I_Fail i) = 1" | "init_ref _ = 0"

fun init_ok :: "init_pc \<Rightarrow> bool" where
  "init_ok (I_Loop i) = (i \<le> NUM_WORKERS)" | "init_ok (I_Create i) = (i < NUM_WORKERS)"
| "init_ok (I_Fail i) = (i < NUM_WORKERS)" | "init_ok (I_Abort i) = (i < NUM_WORKERS)"
| "init_ok (I_Return r) = (r = 0 \<or> r = - 1)"

text \<open>What a racer's program counter may be, given the action and the ready count.\<close>

fun pc_ok :: "race_action \<Rightarrow> int \<Rightarrow> racer_pc \<Rightarrow> bool" where
  "pc_ok a n R_Absent = True"
| "pc_ok a n R_Enter = True"
| "pc_ok a n (R_Ready c) = (c \<le> n)"
| "pc_ok a n R_Spin = True"
| "pc_ok a n R_Decide = (a \<noteq> RACER_WAIT)"
| "pc_ok a n (R_Put r) = (if a = RACER_ABORT then r = - 1 else a = RACER_RACE \<and> r = 0)"
| "pc_ok a n (R_Exit r) = (if a = RACER_ABORT then r = - 1 else a = RACER_RACE \<and> r = 0)"
| "pc_ok a n (R_Critical r) = (a = RACER_RACE \<and> r = 0)"
| "pc_ok a n (R_Up r) = (a = RACER_RACE \<and> r = 0)"
| "pc_ok a n R_Down = (a = RACER_RACE)"
| "pc_ok a n R_Locked = (a = RACER_RACE)"

definition race_inv :: "('s \<Rightarrow> nat) \<Rightarrow> 's race \<Rightarrow> bool" where
  "race_inv v s \<longleftrightarrow>
     int (v (sem s)) + count_pc holds_sem (racers s) = 1 \<and>
     holder_count s = count_pc in_critical (racers s) \<and>
     ready_count s = count_pc counted_ready (racers s) \<and>
     module_refs s = count_pc alive (racers s) + init_ref (init_at s) \<and>
     init_ok (init_at s) \<and> (\<forall>w. created (init_at s) \<le> w \<longrightarrow> racers s w = R_Absent) \<and>
     (\<forall>w. pc_ok (action s) (ready_count s) (racers s w)) \<and>
     (action s = RACER_ABORT \<longleftrightarrow> init_at s = I_Return (- 1)) \<and>
     (action s = RACER_RACE \<longrightarrow> created (init_at s) = NUM_WORKERS \<and> \<not> failing (init_at s)) \<and>
     (init_at s = I_Return 0 \<longrightarrow> action s = RACER_RACE)"

lemma pc_ok_from_wait: "pc_ok RACER_WAIT n p \<Longrightarrow> pc_ok a n p"
  by (cases p) (auto split: if_splits)

lemma pc_ok_not_abort: "pc_ok a n p \<Longrightarrow> a \<noteq> RACER_ABORT \<Longrightarrow> pc_ok RACER_RACE n p"
  by (cases a) (auto intro: pc_ok_from_wait)

lemma race_inv_pc: "race_inv v s \<Longrightarrow> pc_ok (action s) (ready_count s) (racers s w)"
  unfolding race_inv_def by blast

lemma race_inv_pc_race:
  "race_inv v s \<Longrightarrow> action s \<noteq> RACER_ABORT \<Longrightarrow> \<forall>w. pc_ok RACER_RACE (ready_count s) (racers s w)"
  using race_inv_pc pc_ok_not_abort by blast

lemma race_inv_start:
  "counting_sema ops v \<Longrightarrow> race_start ops s \<Longrightarrow> race_inv v s"
  by (simp add: race_start_def demo_semaphore_start_def race_inv_def counting_sema_def count_pc_None)

lemma race_inv_init_step:
  assumes inv: "race_inv v s" and step: "init_step ok s = Some t"
  shows "race_inv v t"
proof (cases "init_at s")
  case (I_Loop i)
  then have "\<forall>w. pc_ok RACER_RACE (ready_count s) (racers s w)"
    using inv by (intro race_inv_pc_race) (auto simp: race_inv_def)
  with I_Loop show ?thesis
    using inv step by (auto simp: init_step_def race_inv_def split: if_splits)
next
  case (I_Create i)
  then show ?thesis
    using inv step
    by (auto simp: init_step_def race_inv_def set_racer_def split: if_splits)
next
  case (I_Fail i)
  then show ?thesis
    using inv step by (auto simp: init_step_def race_inv_def split: if_splits)
next
  case (I_Abort i)
  then have "action s = RACER_WAIT"
    using inv by (cases "action s") (auto simp: race_inv_def)
  with I_Abort show ?thesis
    using inv step by (auto simp: init_step_def race_inv_def intro: pc_ok_from_wait)
next
  case (I_Return r)
  then show ?thesis using step by (simp add: init_step_def)
qed

text \<open>What the invariant says of one racer that is about to take a step.\<close>

lemma race_inv_racer:
  assumes "race_inv v s" "racers s w \<noteq> R_Absent"
  shows "w < NUM_WORKERS" "w < created (init_at s)" "pc_ok (action s) (ready_count s) (racers s w)"
proof -
  show w: "w < created (init_at s)"
    using assms by (auto simp: race_inv_def not_less [symmetric])
  show "w < NUM_WORKERS"
    using w assms by (cases "init_at s") (auto simp: race_inv_def split: if_splits)
  show "pc_ok (action s) (ready_count s) (racers s w)"
    using assms by (intro race_inv_pc)
qed

lemma race_inv_lock_free:
  assumes inv: "race_inv v s" and w: "racers s w = R_Locked"
  shows "holder_count s = 0"
proof -
  let ?f = "(racers s)(w := R_Absent)"
  have lt: "w < NUM_WORKERS" using race_inv_racer [OF inv, of w] w by simp
  have "count_pc in_critical ?f \<le> count_pc holds_sem ?f"
    by (rule count_pc_mono) (auto elim: in_critical.elims)
  also have "\<dots> \<le> 0" using inv w lt by (simp add: race_inv_def)
  finally have "count_pc in_critical (racers s) \<le> 0" using w lt by simp
  then show ?thesis
    using inv count_pc_nonneg [of in_critical "racers s"] by (simp add: race_inv_def)
qed

lemma race_inv_all_ready:
  assumes inv: "race_inv v s" and w: "racers s w = R_Ready (int NUM_WORKERS)"
  shows "created (init_at s) = NUM_WORKERS \<and> \<not> failing (init_at s)"
proof -
  have "int NUM_WORKERS \<le> count_pc counted_ready (racers s)"
    using race_inv_racer [OF inv, of w] w inv by (simp add: race_inv_def)
  also have "\<dots> \<le> int (created (init_at s))"
    using inv by (intro count_pc_bound) (metis counted_ready.simps(1) race_inv_racer(2))
  finally show ?thesis
    using inv by (cases "init_at s") (auto simp: race_inv_def NUM_WORKERS_def split: if_splits)
qed

lemma race_inv_racer_step:
  assumes sem: "counting_sema ops v" and inv: "race_inv v s" and step: "do_race_step ops w s = Some t"
  shows "race_inv v t"
proof (cases "racers s w = R_Absent")
  case True
  then show ?thesis using step by (simp add: do_race_step_def)
next
  case False
  note facts = race_inv_racer [OF inv False]
  note defs = do_race_step_def set_racer_def race_inv_def
  show ?thesis
  proof (cases "racers s w")
    case R_Absent
    then show ?thesis using False by simp
  next
    case R_Enter
    have "pc_ok (action s) (ready_count s + 1) p" if "pc_ok (action s) (ready_count s) p" for p
      using that by (cases p) auto
    with R_Enter show ?thesis using inv step facts by (auto simp: defs)
  next
    case (R_Ready c)
    then show ?thesis
    proof (cases "c = int NUM_WORKERS")
      case True
      then have c: "created (init_at s) = NUM_WORKERS \<and> \<not> failing (init_at s)"
        using race_inv_all_ready [OF inv] R_Ready by simp
      then have na: "action s \<noteq> RACER_ABORT"
        using inv by (auto simp: race_inv_def)
      then have "\<forall>u. pc_ok RACER_RACE (ready_count s) (racers s u)"
        using race_inv_pc_race [OF inv] by blast
      with R_Ready True c na show ?thesis using inv step facts by (auto simp: defs)
    next
      case False
      with R_Ready show ?thesis using inv step facts by (auto simp: defs)
    qed
  next
    case R_Spin
    then show ?thesis using inv step facts by (auto simp: defs split: if_splits)
  next
    case R_Decide
    then show ?thesis using inv step facts
      by (cases "action s") (auto simp: defs)
  next
    case R_Down
    then show ?thesis using inv step facts sem
      by (auto simp: defs counting_sema_def split: option.splits)
  next
    case R_Locked
    then show ?thesis using inv step facts race_inv_lock_free [OF inv R_Locked] by (auto simp: defs)
  next
    case (R_Critical r)
    then show ?thesis using inv step facts by (auto simp: defs)
  next
    case (R_Up r)
    then show ?thesis using inv step facts sem by (auto simp: defs counting_sema_def)
  next
    case (R_Put r)
    then show ?thesis using inv step facts by (auto simp: defs split: if_splits)
  next
    case (R_Exit r)
    then show ?thesis using step by (simp add: defs)
  qed
qed

section \<open>The module's reference count\<close>

definition live_racers :: "'s race \<Rightarrow> nat set" where
  "live_racers s = {w. alive (racers s w)}"

definition module_users :: "'s race \<Rightarrow> nat" where
  \<comment> \<open>the live racers, and init while it holds a reference for the next one\<close>
  "module_users s = card (live_racers s) + nat (init_ref (init_at s))"

lemma count_alive_card:
  assumes "race_inv v s"
  shows "count_pc alive (racers s) = int (card (live_racers s))"
proof -
  have "live_racers s = {w \<in> {..<NUM_WORKERS}. alive (racers s w)}"
    using race_inv_racer(1) [OF assms] alive.simps(1) unfolding live_racers_def
    by (metis (mono_tags, lifting) lessThan_iff)
  then show ?thesis by (simp add: count_pc_def of_bool_def sum.If_cases Int_def)
qed

lemma race_inv_refs: "race_inv v s \<Longrightarrow> module_refs s = int (module_users s)"
  using count_alive_card [of v s]
  by (cases "init_at s") (auto simp: race_inv_def module_users_def)

definition counted_race_inv :: "('s \<Rightarrow> nat) \<Rightarrow> 's sem_ops \<Rightarrow> 's race \<Rightarrow> bool" where
  "counted_race_inv v ops s \<longleftrightarrow> (counting_sema ops v \<longrightarrow> race_inv v s)"

interpretation race_sys: invariant_system "race_start ops" "race_step ops" "counted_race_inv v ops"
  for ops :: "'s sem_ops" and v
proof (unfold_locales, unfold counted_race_inv_def, safe)
  fix s assume "race_start ops s" "counting_sema ops v"
  then show "race_inv v s" by (intro race_inv_start)
next
  fix s t assume "race_step ops s t" "counting_sema ops v" "race_inv v s"
  then show "race_inv v t"
    by (auto elim!: race_stepE intro: race_inv_racer_step race_inv_init_step)
qed

lemma reach_race_inv:
  "counting_sema ops v \<Longrightarrow> reach (race_start ops) (race_step ops) s \<Longrightarrow> race_inv v s"
  using race_sys.reach_inv [of ops s v] by (simp add: counted_race_inv_def)

text \<open>A semaphore that keeps its promise: its count, as a number.\<close>

definition nat_sema :: "nat sem_ops" where
  "nat_sema = \<lparr>sema_start = 1, sema_down = (\<lambda>n. if n = 0 then None else Some (n - 1)), sema_up = Suc\<rparr>"

lemma nat_sema_counting: "counting_sema nat_sema id"
  by (auto simp: counting_sema_def nat_sema_def)

section \<open>Progress\<close>

fun finished_pc :: "racer_pc \<Rightarrow> bool" where
  "finished_pc R_Absent = True" | "finished_pc (R_Exit r) = True" | "finished_pc _ = False"

definition race_over :: "'s race \<Rightarrow> bool" where
  "race_over s \<longleftrightarrow> (\<exists>r. init_at s = I_Return r) \<and> (\<forall>w. finished_pc (racers s w))"

fun pc_rank :: "racer_pc \<Rightarrow> nat" where
  "pc_rank R_Absent = 10" | "pc_rank R_Enter = 9" | "pc_rank (R_Ready c) = 8" | "pc_rank R_Spin = 7"
| "pc_rank R_Decide = 6" | "pc_rank R_Down = 5" | "pc_rank R_Locked = 4"
| "pc_rank (R_Critical r) = 3" | "pc_rank (R_Up r) = 2" | "pc_rank (R_Put r) = 1"
| "pc_rank (R_Exit r) = 0"

fun init_rank :: "init_pc \<Rightarrow> nat" where
  "init_rank (I_Loop i) = 3 * (NUM_WORKERS - i) + 3"
| "init_rank (I_Create i) = 3 * (NUM_WORKERS - i) + 2"
| "init_rank (I_Fail i) = 2" | "init_rank (I_Abort i) = 1" | "init_rank (I_Return r) = 0"

definition race_rank :: "'s race \<Rightarrow> nat" where
  "race_rank s = (\<Sum>w < NUM_WORKERS. pc_rank (racers s w)) + init_rank (init_at s)"

lemma rank_upd:
  assumes "w < NUM_WORKERS" "pc_rank p < pc_rank (f w)"
  shows "(\<Sum>u < NUM_WORKERS. pc_rank ((f(w := p)) u)) < (\<Sum>u < NUM_WORKERS. pc_rank (f u))"
  using assms by (intro sum_strict_mono_ex1) auto

lemma do_race_step_shape:
  "do_race_step ops w s = Some t \<Longrightarrow>
    \<exists>p. racers t = (racers s)(w := p) \<and> pc_rank p < pc_rank (racers s w) \<and> init_at t = init_at s"
  by (cases "racers s w")
    (auto simp: do_race_step_def set_racer_def split: if_splits option.splits)

lemma race_step_rank:
  assumes inv: "race_inv v s" and step: "race_step ops s t"
  shows "race_rank t < race_rank s"
  using step
proof cases
  case (racer w)
  then have "w < NUM_WORKERS"
    using race_inv_racer(1) [OF inv] by (cases "racers s w") (auto simp: do_race_step_def)
  then show ?thesis
    using do_race_step_shape [OF racer] rank_upd by (auto simp: race_rank_def)
next
  case (init ok)
  have created: "racers s i = R_Absent" if "init_at s = I_Create i" for i
    using inv that by (simp add: race_inv_def)
  show ?thesis
  proof (cases "\<exists>i. init_at s = I_Create i \<and> ok")
    case True
    then obtain i where i: "init_at s = I_Create i" ok by blast
    then have "i < NUM_WORKERS" using inv by (simp add: race_inv_def)
    then show ?thesis
      using init i rank_upd [of i R_Enter "racers s"] created [OF i(1)]
      by (auto simp: race_rank_def init_step_def set_racer_def)
  next
    case False
    then show ?thesis
      using init inv by (auto simp: race_rank_def init_step_def race_inv_def split: init_pc.splits if_splits)
  qed
qed

text \<open>A racer waiting in \<open>down\<close> waits for one that holds the semaphore and can go on.\<close>

lemma down_blocked_holder:
  assumes sem: "counting_sema ops v" and inv: "race_inv v s" and none: "sema_down ops (sem s) = None"
  shows "\<exists>u. holds_sem (racers s u)"
proof (rule ccontr)
  assume "\<not> ?thesis"
  then have "count_pc holds_sem (racers s) = 0" by (intro count_pc_None) blast
  with inv sem none show False by (auto simp: race_inv_def counting_sema_def)
qed

lemma holder_steps: "holds_sem (racers s u) \<Longrightarrow> \<exists>t. do_race_step ops u s = Some t"
  by (cases "racers s u") (auto simp: do_race_step_def)

lemma race_step_enabled:
  assumes sem: "counting_sema ops v" and inv: "race_inv v s" and go: "\<not> race_over s"
  shows "\<exists>t. race_step ops s t"
proof (cases "\<exists>r. init_at s = I_Return r")
  case False
  then have "\<exists>t. init_step True s = Some t"
    by (cases "init_at s") (auto simp: init_step_def)
  then show ?thesis by (blast intro: race_step.init)
next
  case True
  with inv have act: "action s \<noteq> RACER_WAIT" by (auto simp: race_inv_def)
  from go True obtain w where w: "\<not> finished_pc (racers s w)"
    by (auto simp: race_over_def)
  have "\<exists>u t. do_race_step ops u s = Some t"
  proof (cases "racers s w = R_Down \<and> sema_down ops (sem s) = None")
    case True
    then show ?thesis using down_blocked_holder [OF sem inv] holder_steps by blast
  next
    case False
    then have "\<exists>t. do_race_step ops w s = Some t"
      using w act by (cases "racers s w") (auto simp: do_race_step_def split: option.splits)
    then show ?thesis by blast
  qed
  then show ?thesis by (blast intro: race_step.racer)
qed

lemma race_runs_out:
  assumes sem: "counting_sema ops v"
  shows "race_inv v s \<Longrightarrow> \<exists>t. (race_step ops)\<^sup>*\<^sup>* s t \<and> race_inv v t \<and> race_over t"
proof (induction "race_rank s" arbitrary: s rule: less_induct)
  case less
  show ?case
  proof (cases "race_over s")
    case True
    then show ?thesis using less.prems by blast
  next
    case False
    then obtain t where t: "race_step ops s t"
      using race_step_enabled [OF sem less.prems] by blast
    then have "race_inv v t"
      using race_sys.inv_step [of v ops s t] less.prems sem by (simp add: counted_race_inv_def)
    from less.hyps [OF race_step_rank [OF less.prems t] this] t show ?thesis
      by (meson converse_rtranclp_into_rtranclp)
  qed
qed

lemma finished_pc_idle: "finished_pc p \<Longrightarrow> \<not> alive p \<and> \<not> holds_sem p \<and> \<not> in_critical p"
  by (cases p) auto

lemma race_over_counts:
  assumes inv: "race_inv v s" and over: "race_over s"
  shows "count_pc alive (racers s) = 0" "count_pc holds_sem (racers s) = 0"
    "count_pc in_critical (racers s) = 0"
  using over finished_pc_idle unfolding race_over_def by (blast intro: count_pc_None)+

lemma race_over_outcome:
  assumes inv: "race_inv v s" and over: "race_over s"
  shows "v (sem s) = 1 \<and> holder_count s = 0 \<and> module_refs s = 0 \<and>
      (init_at s = I_Return 0 \<and> action s = RACER_RACE \<and>
         (\<forall>w r. racers s w = R_Exit r \<longrightarrow> r = 0) \<or>
       init_at s = I_Return (- 1) \<and> action s = RACER_ABORT \<and>
         (\<forall>w r. racers s w = R_Exit r \<longrightarrow> r = - 1))"
proof -
  have exit: "r = (if action s = RACER_ABORT then - 1 else 0)" if "racers s w = R_Exit r" for w r
    using race_inv_pc [OF inv, of w] that by (auto split: if_splits)
  consider "init_at s = I_Return 0" "action s = RACER_RACE" | "init_at s = I_Return (- 1)" "action s = RACER_ABORT"
    using inv over by (auto simp: race_over_def race_inv_def)
  then show ?thesis
    using race_over_counts [OF inv over] inv exit by cases (auto simp: race_inv_def)
qed

section \<open>Properties\<close>

text \<open>
  C3: Mutual exclusion in every interleaving. In every reachable state at most one racer is between
  \<open>down\<close> and \<open>up\<close>, \<open>holder_count\<close> is the number of racers in the critical section (0 or 1), and no
  racer ever sees a \<open>holder_count\<close> other than 1: a racer that got the lock carries return value 0.
\<close>

theorem race_mutual_exclusion:
  assumes "counting_sema ops v" and "reach (race_start ops) (race_step ops) s"
  shows "(\<forall>w u. holds_sem (racers s w) \<and> holds_sem (racers s u) \<longrightarrow> w = u) \<and>
    0 \<le> holder_count s \<and> holder_count s \<le> 1 \<and>
    (\<forall>w r. racers s w = R_Critical r \<longrightarrow> r = 0 \<and> holder_count s = 1)"
proof -
  note inv = reach_race_inv [OF assms]
  have le: "count_pc holds_sem (racers s) \<le> 1" using inv by (simp add: race_inv_def)
  have num: "w < NUM_WORKERS" if "holds_sem (racers s w)" for w
    using race_inv_racer(1) [OF inv] that by (metis holds_sem.simps(4))
  have one: "w = u" if "holds_sem (racers s w)" "holds_sem (racers s u)" for w u
    using count_pc_two [of w u holds_sem "racers s"] num that le by fastforce
  have crit: "count_pc in_critical (racers s) \<le> count_pc holds_sem (racers s)"
    by (rule count_pc_mono) (auto elim: in_critical.elims)
  have "r = 0 \<and> 1 \<le> count_pc in_critical (racers s)" if "racers s w = R_Critical r" for w r
    using race_inv_pc [OF inv, of w] num [of w] count_pc_pos [of w in_critical "racers s"] that by simp
  moreover have "holder_count s = count_pc in_critical (racers s)" using inv by (simp add: race_inv_def)
  ultimately have "0 \<le> holder_count s" "holder_count s \<le> 1"
    "\<And>w r. racers s w = R_Critical r \<Longrightarrow> r = 0 \<and> holder_count s = 1"
    using le crit count_pc_nonneg [of in_critical "racers s"] by (force intro: antisym)+
  then show ?thesis using one by blast
qed

text \<open>
  The module stays loaded exactly as long as somebody runs its code. In every reachable state the
  module's reference count is the number of live racer threads, plus one while init holds the
  reference it took for the thread it is about to start.
\<close>

theorem race_module_refs:
  assumes "counting_sema ops v" and "reach (race_start ops) (race_step ops) s"
  shows "module_refs s = int (card (live_racers s)) +
    (case init_at s of I_Create i \<Rightarrow> 1 | I_Fail i \<Rightarrow> 1 | _ \<Rightarrow> 0)"
  using race_inv_refs [OF reach_race_inv [OF assms]]
  by (cases "init_at s") (simp_all add: module_users_def)

text \<open>
  C9: The race always ends. From every reachable state every step lowers \<open>race_rank\<close>, a step is
  possible until everybody is finished (no deadlock on the semaphore or in the busy loop), and so the
  race can be run to its end; there the semaphore is free again, no reference to the module is left,
  and either init returned 0 and all racers returned 0, or init returned -1 and every racer that was
  started returned -1.
\<close>

theorem race_ends:
  assumes "counting_sema ops v" and "reach (race_start ops) (race_step ops) s"
  shows "(\<forall>t. race_step ops s t \<longrightarrow> race_rank t < race_rank s) \<and>
    (race_over s \<or> (\<exists>t. race_step ops s t)) \<and>
    (\<exists>t. (race_step ops)\<^sup>*\<^sup>* s t \<and> race_over t) \<and>
    (race_over s \<longrightarrow> v (sem s) = 1 \<and> holder_count s = 0 \<and> module_refs s = 0 \<and>
      (init_at s = I_Return 0 \<and> action s = RACER_RACE \<and>
         (\<forall>w r. racers s w = R_Exit r \<longrightarrow> r = 0) \<or>
       init_at s = I_Return (- 1) \<and> action s = RACER_ABORT \<and>
         (\<forall>w r. racers s w = R_Exit r \<longrightarrow> r = - 1)))"
proof -
  note inv = reach_race_inv [OF assms]
  show ?thesis
    using race_step_rank [OF inv] race_step_enabled [OF assms(1) inv] race_runs_out [OF assms(1) inv]
    by (intro conjI impI race_over_outcome [OF inv]) (blast+)
qed

text \<open>
  When \<open>kthread_run\<close> fails for a later racer, init tells the started racers to abort and returns
  -1 at once, without waiting for them: there is a run in which init has returned an error (upon which
  the kernel frees the module) while racer 0 still has all of \<open>do_race\<close> to execute and the
  reference count is positive.
\<close>

theorem race_init_error_outlived:
  "\<exists>s. reach (race_start ops) (race_step ops) s \<and> init_at s = I_Return (- 1) \<and>
    racers s 0 = R_Enter \<and> module_refs s = 1"
proof -
  let ?R = "reach (race_start ops) (race_step ops)"
  let ?go = "\<lambda>ok s. the (init_step ok s)"
  have more: "?R (?go ok s)" if "?R s" "init_step ok s \<noteq> None" for ok and s :: "'a race"
    using that by (metis option.collapse race_step.init reach_step)
  let ?s = "?go True (?go True (?go False (?go True (?go True (?go True (demo_semaphore_start ops))))))"
  have "?R (demo_semaphore_start ops)"
    by (rule reach_init) (simp add: race_start_def)
  then have "?R ?s"
    by (intro more) (simp_all add: init_step_def demo_semaphore_start_def set_racer_def NUM_WORKERS_def)
  moreover have "init_at ?s = I_Return (- 1) \<and> racers ?s 0 = R_Enter \<and> module_refs ?s = 1"
    by (simp add: init_step_def demo_semaphore_start_def set_racer_def NUM_WORKERS_def)
  ultimately show ?thesis by blast
qed

text \<open>Each property with a hypothesis, at a run of the plain counter.\<close>

lemma nat_race_reach: "reach (race_start nat_sema) (race_step nat_sema) (demo_semaphore_start nat_sema)"
  by (rule reach_init) (simp add: race_start_def)

theorem race_mutual_exclusion_witness:
  "0 \<le> holder_count (demo_semaphore_start nat_sema) \<and> holder_count (demo_semaphore_start nat_sema) \<le> 1"
  using race_mutual_exclusion [OF nat_sema_counting nat_race_reach] by blast

theorem race_module_refs_witness:
  "module_refs (demo_semaphore_start nat_sema) = int (card (live_racers (demo_semaphore_start nat_sema)))"
  using race_module_refs [OF nat_sema_counting nat_race_reach]
  by (simp add: demo_semaphore_start_def)

theorem race_ends_witness:
  "\<exists>t. (race_step nat_sema)\<^sup>*\<^sup>* (demo_semaphore_start nat_sema) t \<and> race_over t"
  using race_ends [OF nat_sema_counting nat_race_reach] by blast

end
