(* ===== verification/SysfsParser.thy ===== *)
theory SysfsParser
  imports Machine
begin

unbundle bit_operations_syntax

text \<open>
  The sysfs list parser \<open>linux-c/sysfs-parser.c\<close>: \<open>read_sysfs_str\<close>, which fills a stack buffer from
  a file, and \<open>parse_array_to_bitmask\<close>, which turns a list of ranges such as \<open>0-1,3,5-8\<close> into a
  64-bit mask. The inner loop over a range is a \<open>partial_function\<close>: it does not end for the range end
  \<open>ULONG_MAX\<close>. A shift by 64 or more, undefined in C, is a result of its own. The specification
  prints a list of ranges and says which bits its mask has.
\<close>

section \<open>The parser\<close>

datatype parse_result =
    Parsed u64            \<comment> \<open>return 0, with \<open>*demo_mask\<close>\<close>
  | Malformed u64         \<comment> \<open>return -1, with what \<open>*demo_mask\<close> holds by then\<close>
  | Bad_shift             \<comment> \<open>\<open>1 << start_value\<close> with \<open>start_value\<close> of 64 or more\<close>
  | Endless               \<comment> \<open>the loop over a range never ends\<close>

text \<open>\<open>for (i = start_value; i <= end_value; i++) { *demo_mask |= bit; bit <<= 1; }\<close>\<close>

partial_function (option) set_range :: "u64 \<Rightarrow> u64 \<Rightarrow> u64 \<Rightarrow> u64 \<Rightarrow> u64 option" where
  "set_range i end_value bt m =
     (if i \<le> end_value then set_range (i + 1) end_value (push_bit 1 bt) (m OR bt) else Some m)"

text \<open>One value or range at the cursor: \<open>None\<close> is an error return.\<close>

definition scan_range :: "string \<Rightarrow> (u64 \<times> u64 \<times> string) option" where
  "scan_range cursor = (case c_strtoul cursor of
     None \<Rightarrow> None
   | Some (start_value, cursor1) \<Rightarrow>
       if cursor1 \<noteq> [] \<and> hd cursor1 = CHR ''-'' then
         (case c_strtoul (tl cursor1) of
            None \<Rightarrow> None
          | Some (end_value, cursor2) \<Rightarrow>
              if end_value \<le> start_value then None else Some (start_value, end_value, cursor2))
       else Some (start_value, start_value, cursor1))"

lemma scan_range_shorter: "scan_range s = Some (a, b, r) \<Longrightarrow> length r < length s"
proof -
  assume run: "scan_range s = Some (a, b, r)"
  then obtain v c where c: "c_strtoul s = Some (v, c)"
    by (auto simp: scan_range_def split: option.splits)
  from c_strtoul_shorter [OF c] show ?thesis
    using run c by (cases c)
      (auto simp: scan_range_def split: option.splits if_splits dest!: c_strtoul_shorter)
qed

text \<open>The \<open>while (true)\<close> loop; every round consumes at least one character.\<close>

function parse_loop :: "string \<Rightarrow> u64 \<Rightarrow> parse_result" where
  "parse_loop cursor demo_mask = (case scan_range cursor of
     None \<Rightarrow> Malformed demo_mask
   | Some (start_value, end_value, rest) \<Rightarrow>
       if unat start_value \<ge> 64 then Bad_shift
       else case set_range start_value end_value (push_bit (unat start_value) 1) demo_mask of
         None \<Rightarrow> Endless
       | Some m \<Rightarrow> (case rest of
             [] \<Rightarrow> Malformed m
           | c # rest' \<Rightarrow>
               if c = CHR '','' then parse_loop rest' m
               else if c = CHR 0x0A then Parsed m
               else Malformed m))"
  by pat_completeness auto
termination
  by (relation "measure (\<lambda>(s, m). length s)") (auto dest!: scan_range_shorter)

definition parse_array_to_bitmask :: "string \<Rightarrow> parse_result" where
  "parse_array_to_bitmask str = parse_loop (c_str str) 0"

section \<open>Reading the file\<close>

definition BUFFER_SIZE :: nat where "BUFFER_SIZE = 64"

record file_env =
  open_result :: int          \<comment> \<open>\<open>open\<close>: a descriptor or -1\<close>
  read_result :: "string option"  \<comment> \<open>\<open>read\<close>: the bytes, \<open>None\<close> for -1\<close>
  file_errno :: int           \<comment> \<open>\<open>errno\<close> of the call that failed\<close>

definition read_sysfs_str :: "string \<Rightarrow> file_env \<Rightarrow> int \<times> string \<times> int rev list" where
  \<comment> \<open>the first argument is the buffer before the call, the second result the buffer after it\<close>
  "read_sysfs_str str e =
     (let fd = open_result e in
      if fd = - 1 then (file_errno e, str, [])
      else case read_result e of
        None \<Rightarrow> (file_errno e, str, [Acquire fd])
      | Some bytes \<Rightarrow> (0, take (length str) bytes @ drop (length bytes) str, [Acquire fd, Release fd]))"

definition builtin_list :: string where "builtin_list = ''0-1,3,5-8,10'' @ [CHR 0x0A]"

definition parse_status :: "parse_result \<Rightarrow> int option" where
  \<comment> \<open>the return value, \<open>None\<close> where there is none\<close>
  "parse_status r = (case r of Parsed m \<Rightarrow> Some 0 | Malformed m \<Rightarrow> Some (- 1) | Bad_shift \<Rightarrow> None | Endless \<Rightarrow> None)"

definition parser_main :: "string \<Rightarrow> file_env \<Rightarrow> int option \<times> parse_result list \<times> int rev list" where
  \<comment> \<open>exit status, the results of the parses, the descriptors; the first argument is the
     uninitialised stack buffer\<close>
  "parser_main str e = (case read_sysfs_str str e of (ret, str', t) \<Rightarrow>
     if ret \<noteq> 0 then (Some ret, [], t)
     else let r1 = parse_array_to_bitmask str' in
       if parse_status r1 \<noteq> Some 0 then (parse_status r1, [r1], t)
       else let r2 = parse_array_to_bitmask builtin_list in (parse_status r2, [r1, r2], t))"

section \<open>The range loop\<close>

lemma set_range_end: "\<not> i \<le> e \<Longrightarrow> set_range i e b m = Some m"
  by (subst set_range.simps) simp

lemma set_range_more:
  "i \<le> e \<Longrightarrow> set_range i e b m = set_range (i + 1) e (push_bit 1 b) (m OR b)"
  by (subst set_range.simps) simp

lemma set_range_returns: "set_range i e b m = Some y \<Longrightarrow> e \<noteq> - 1"
proof (rule set_range.raw_induct [where P = "\<lambda>i e b m y. e \<noteq> - 1"])
  fix sr :: "u64 \<Rightarrow> u64 \<Rightarrow> u64 \<Rightarrow> u64 \<Rightarrow> u64 option" and i e b m y
  assume IH: "\<And>i e b m y. sr i e b m = Some y \<Longrightarrow> e \<noteq> - 1"
    and run: "(if i \<le> e then sr (i + 1) e (push_bit 1 b) (m OR b) else Some m) = Some y"
  show "e \<noteq> - 1" using IH run by (cases "i \<le> e") auto
qed

lemma set_range_max [simp]: "set_range i (- 1) b m = None"
  using set_range_returns [of i "- 1" b m] by (cases "set_range i (- 1) b m") auto

lemma succ_no_wrap:
  assumes "(e :: u64) < - 1"
  shows "unat (e + 1) = Suc (unat e)" "e < e + 1"
proof -
  have "e \<noteq> - 1" using assms by auto
  then show "unat (e + 1) = Suc (unat e)"
    by (metis add.commute add.right_inverse add_eq_0_iff unatSuc)
  then show "e < e + 1" by (simp add: word_less_nat_alt)
qed

lemma set_range_bits:
  assumes e: "e < - 1"
  shows "i \<le> e + 1 \<Longrightarrow>
    \<exists>r. set_range i e (push_bit (unat i) 1) m = Some r \<and>
      (\<forall>n < 64. bit r n \<longleftrightarrow> bit m n \<or> unat i \<le> n \<and> n \<le> unat e)"
proof (induction "unat (e + 1) - unat i" arbitrary: i m)
  case 0
  then have "i = e + 1" by (simp add: word_le_nat_alt word_unat_eq_iff)
  moreover have "\<not> e + 1 \<le> e" using succ_no_wrap(2) [OF e] by simp
  ultimately show ?case using succ_no_wrap(1) [OF e] by (auto simp: set_range_end)
next
  case (Suc k)
  then have le: "i \<le> e" "i < - 1"
    using succ_no_wrap(1) [OF e] e by (auto simp: word_le_nat_alt word_less_nat_alt)
  note next_i = succ_no_wrap(1) [OF le(2)]
  have step: "set_range i e (push_bit (unat i) 1) m =
      set_range (i + 1) e (push_bit (unat (i + 1)) 1) (m OR push_bit (unat i) 1)"
    using set_range_more [OF le(1)] by (simp add: next_i mult.commute)
  have "i + 1 \<le> e + 1" "k = unat (e + 1) - unat (i + 1)"
    using Suc.hyps(2) le next_i succ_no_wrap(1) [OF e] by (auto simp: word_le_nat_alt)
  from Suc.hyps(1) [OF this(2,1), of "m OR push_bit (unat i) 1"]
  obtain r where r: "set_range i e (push_bit (unat i) 1) m = Some r"
    "\<forall>n < 64. bit r n \<longleftrightarrow> bit (m OR push_bit (unat i) 1) n \<or> unat (i + 1) \<le> n \<and> n \<le> unat e"
    unfolding step by blast
  have "bit r n \<longleftrightarrow> bit m n \<or> unat i \<le> n \<and> n \<le> unat e" if "n < 64" for n
    using r(2) that le by (auto simp: bit_simps next_i word_le_nat_alt)
  with r(1) show ?case by blast
qed

section \<open>Specification: printed ranges\<close>

definition range_text :: "nat \<times> nat \<Rightarrow> string" where
  "range_text r = (if fst r = snd r then dec_of (fst r) else dec_of (fst r) @ ''-'' @ dec_of (snd r))"

definition ranges_text :: "(nat \<times> nat) list \<Rightarrow> string" where
  "ranges_text rs = concat (map (\<lambda>r. range_text r @ '','') rs)"

definition in_ranges :: "nat \<Rightarrow> (nat \<times> nat) list \<Rightarrow> bool" where
  "in_ranges n rs = list_ex (\<lambda>r. fst r \<le> n \<and> n \<le> snd r) rs"

definition range_ok :: "nat \<times> nat \<Rightarrow> bool" where
  "range_ok r \<longleftrightarrow> fst r \<le> snd r \<and> fst r < 64 \<and> snd r < 2 ^ 64 - 1"

lemma not_digit_delims: "\<not> c_isdigit CHR '','' \<and> \<not> c_isdigit CHR ''-'' \<and> \<not> c_isdigit CHR 0x0A"
  by (simp add: c_isdigit_def)

definition saturate :: "nat \<Rightarrow> u64" where
  "saturate n = (if n < 2 ^ 64 then word_of_nat n else - 1)"

lemma unat_max: "unat (- 1 :: u64) = 2 ^ 64 - 1"
  by (simp add: unsigned_minus_1_eq_mask mask_eq_exp_minus_1)

lemma unat_saturate: "unat (saturate n) = min n (2 ^ 64 - 1)"
  unfolding saturate_def by (simp add: unat_of_nat unat_max)

lemma c_strtoul_end:
  "s = [] \<or> \<not> c_isdigit (hd s) \<Longrightarrow> c_strtoul (dec_of n @ s) = Some (saturate n, s)"
  using c_strtoul_dec_of [of n s] c_strtoul_dec_of_big [of n s]
  unfolding saturate_def by (cases "n < 2 ^ 64") auto

lemma scan_range_text:
  assumes "a \<le> b" "a < 2 ^ 64 - 1" and delim: "c = CHR '','' \<or> c = CHR 0x0A"
  shows "scan_range (range_text (a, b) @ c # s) = Some (saturate a, saturate b, c # s)"
proof -
  have c: "\<not> c_isdigit c" "c \<noteq> CHR ''-''" using delim not_digit_delims by auto
  show ?thesis
  proof (cases "a = b")
    case True
    then show ?thesis
      using c c_strtoul_end [of "c # s" b]
      by (simp add: scan_range_def range_text_def)
  next
    case False
    then have "saturate a < saturate b"
      using assms by (simp add: word_less_nat_alt unat_saturate)
    then show ?thesis
      using False c c_strtoul_end [of "c # s" b] c_strtoul_end [of "CHR ''-'' # dec_of b @ c # s" a]
        not_digit_delims
      by (simp add: scan_range_def range_text_def not_le)
  qed
qed

declare parse_loop.simps [simp del]

lemma set_range_ok:
  assumes "range_ok (a, b)"
  shows "\<exists>m'. set_range (saturate a) (saturate b) (push_bit (unat (saturate a)) 1) m = Some m' \<and>
    (\<forall>n < 64. bit m' n \<longleftrightarrow> bit m n \<or> a \<le> n \<and> n \<le> b)"
proof -
  have "saturate b < - 1" "saturate a \<le> saturate b + 1"
    using assms succ_no_wrap(1) [of "saturate b"]
    by (simp_all add: range_ok_def word_less_nat_alt word_le_nat_alt unat_saturate unat_max)
  from set_range_bits [OF this, of m] show ?thesis
    using assms by (auto simp: unat_saturate range_ok_def)
qed

lemma parse_one_range:
  assumes "range_ok r" and delim: "c = CHR '','' \<or> c = CHR 0x0A"
  shows "\<exists>m'. parse_loop (range_text r @ c # s) m = (if c = CHR '','' then parse_loop s m' else Parsed m') \<and>
    (\<forall>n < 64. bit m' n \<longleftrightarrow> bit m n \<or> fst r \<le> n \<and> n \<le> snd r)"
proof -
  obtain a b where r: "r = (a, b)" by (cases r)
  with assms have ab: "a \<le> b" "a < 2 ^ 64 - 1" "\<not> 64 \<le> unat (saturate a)"
    by (auto simp: range_ok_def unat_saturate)
  from set_range_ok [of a b m] assms r obtain m' where m':
    "set_range (saturate a) (saturate b) (push_bit (unat (saturate a)) 1) m = Some m'"
    "\<forall>n < 64. bit m' n \<longleftrightarrow> bit m n \<or> a \<le> n \<and> n \<le> b" by blast
  then show ?thesis
    using scan_range_text [OF ab(1,2) delim, of s] ab(3) r delim
    by (subst parse_loop.simps) auto
qed

lemma parse_ranges_prefix:
  "\<forall>r \<in> set rs. range_ok r \<Longrightarrow>
    \<exists>m'. parse_loop (ranges_text rs @ s) m = parse_loop s m' \<and>
      (\<forall>n < 64. bit m' n \<longleftrightarrow> bit m n \<or> in_ranges n rs)"
proof (induction rs arbitrary: m)
  case Nil
  then show ?case by (auto simp: ranges_text_def in_ranges_def)
next
  case (Cons r rs)
  from parse_one_range [of r "CHR '',''" "ranges_text rs @ s" m] Cons.prems
  obtain m1 where m1: "parse_loop (ranges_text (r # rs) @ s) m = parse_loop (ranges_text rs @ s) m1"
    "\<forall>n < 64. bit m1 n \<longleftrightarrow> bit m n \<or> fst r \<le> n \<and> n \<le> snd r"
    by (auto simp: ranges_text_def)
  from Cons.IH [of m1] Cons.prems obtain m2 where
    "parse_loop (ranges_text rs @ s) m1 = parse_loop s m2"
    "\<forall>n < 64. bit m2 n \<longleftrightarrow> bit m1 n \<or> in_ranges n rs" by auto
  with m1 show ?case by (auto simp: in_ranges_def)
qed

lemma text_no_nul:
  "CHR 0x00 \<notin> set (dec_of n)" "CHR 0x00 \<notin> set (range_text r)" "CHR 0x00 \<notin> set (ranges_text rs)"
proof -
  show d: "CHR 0x00 \<notin> set (dec_of n)" for n
    using dec_of_digits [of n] by (auto simp: c_isdigit_def)
  show r: "CHR 0x00 \<notin> set (range_text r)" for r
    using d by (auto simp: range_text_def)
  show "CHR 0x00 \<notin> set (ranges_text rs)"
    using r by (auto simp: ranges_text_def)
qed

lemma c_str_append: "CHR 0x00 \<notin> set xs \<Longrightarrow> c_str (xs @ s) = xs @ c_str s"
  by (induction xs) (auto simp: c_str_def)

lemma parse_array_loop:
  "parse_array_to_bitmask (ranges_text rs @ range_text r @ CHR 0x0A # s) =
     parse_loop (ranges_text rs @ range_text r @ CHR 0x0A # c_str s) 0"
  using c_str_append [of "ranges_text rs @ range_text r @ [CHR 0x0A]" s] text_no_nul
  by (simp add: parse_array_to_bitmask_def)

lemma parse_valid_ranges:
  assumes "\<forall>r \<in> set rs. range_ok r" and "range_ok r"
  shows "\<exists>m. parse_array_to_bitmask (ranges_text rs @ range_text r @ CHR 0x0A # garbage) = Parsed m \<and>
    (\<forall>n < 64. bit m n \<longleftrightarrow> in_ranges n (rs @ [r]))"
proof -
  let ?s = "range_text r @ CHR 0x0A # c_str garbage"
  from parse_ranges_prefix [OF assms(1), of ?s 0] obtain m1 where m1:
    "parse_loop (ranges_text rs @ ?s) 0 = parse_loop ?s m1"
    "\<forall>n < 64. bit m1 n \<longleftrightarrow> in_ranges n rs" by auto
  from parse_one_range [OF assms(2), of "CHR 0x0A" "c_str garbage" m1] obtain m2 where
    "parse_loop ?s m1 = Parsed m2"
    "\<forall>n < 64. bit m2 n \<longleftrightarrow> bit m1 n \<or> fst r \<le> n \<and> n \<le> snd r" by auto
  with m1 show ?thesis by (auto simp: parse_array_loop in_ranges_def)
qed

lemma builtin_list_parsed: "parse_array_to_bitmask builtin_list = Parsed 0x5EB"
proof -
  let ?rs = "[(0, 1), (3, 3), (5, 8)]"
  have "\<forall>r \<in> set ?rs. range_ok r" and "range_ok (10, 10)" by (simp_all add: range_ok_def)
  moreover have "builtin_list = ranges_text ?rs @ range_text (10, 10) @ CHR 0x0A # []"
    by code_simp
  ultimately obtain m where m: "parse_array_to_bitmask builtin_list = Parsed m"
    "\<forall>n < 64. bit m n \<longleftrightarrow> in_ranges n (?rs @ [(10, 10)])"
    using parse_valid_ranges [of ?rs "(10, 10)" "[]"] by metis
  have "\<forall>n \<in> set [0..<64]. bit (0x5EB :: u64) n \<longleftrightarrow> in_ranges n (?rs @ [(10, 10)])"
    by code_simp
  with m(2) have "m = 0x5EB"
    by (intro bit_word_eqI) auto
  with m(1) show ?thesis by simp
qed

section \<open>Properties\<close>

text \<open>
  C8: the mask is the set of the numbers listed. For every list of ranges in the kernel's format (single
  numbers or \<open>a-b\<close>, separated by commas, ended by a newline) whose starts are below 64 and whose
  ends are below \<open>ULONG_MAX\<close>, parsing succeeds whatever follows the newline in the buffer, and bit
  \<open>n\<close> of the mask is set exactly when \<open>n\<close> lies in one of the ranges.
\<close>
theorem parse_array_is_range_set:
  assumes "\<forall>r \<in> set rs. range_ok r" and "range_ok r"
  shows "\<exists>m. parse_array_to_bitmask (ranges_text rs @ range_text r @ CHR 0x0A # garbage) = Parsed m \<and>
    (\<forall>n < 64. bit m n \<longleftrightarrow> in_ranges n (rs @ [r]))"
  by (rule parse_valid_ranges [OF assms])

theorem parse_array_is_range_set_witness:
  "\<exists>m. parse_array_to_bitmask (ranges_text [(0, 1), (3, 3)] @ range_text (5, 70) @ CHR 0x0A # ''xyz'') = Parsed m \<and>
    bit m 3 \<and> \<not> bit m 4 \<and> bit m 63"
proof -
  have "\<forall>r \<in> set [(0, 1), (3, 3)]. range_ok r" and "range_ok (5, 70)"
    by (simp_all add: range_ok_def)
  from parse_array_is_range_set [OF this, of "''xyz''"] show ?thesis
    by (auto simp: in_ranges_def)
qed

text \<open>
  C34: the two inputs the parser has no check for. After any valid ranges, a range that starts at 64 or
  more makes the program shift by the width of the mask or more, which C leaves undefined, and a range
  that starts below 64 and ends at \<open>ULONG_MAX\<close> or more (to which \<open>strtoul\<close> saturates) makes the loop
  over the range run forever.
\<close>
theorem parse_array_unchecked_numbers:
  assumes "\<forall>r \<in> set rs. range_ok r" and "a \<le> b"
  shows "(64 \<le> a \<and> a < 2 ^ 64 - 1 \<longrightarrow>
      parse_array_to_bitmask (ranges_text rs @ range_text (a, b) @ CHR 0x0A # garbage) = Bad_shift) \<and>
    (a < 64 \<and> 2 ^ 64 - 1 \<le> b \<longrightarrow>
      parse_array_to_bitmask (ranges_text rs @ range_text (a, b) @ CHR 0x0A # garbage) = Endless)"
proof -
  let ?s = "range_text (a, b) @ CHR 0x0A # c_str garbage"
  from parse_ranges_prefix [OF assms(1), of ?s 0] obtain m where m:
    "parse_loop (ranges_text rs @ ?s) 0 = parse_loop ?s m" by auto
  have scan: "scan_range ?s = Some (saturate a, saturate b, CHR 0x0A # c_str garbage)" if "a < 2 ^ 64 - 1"
    using scan_range_text [OF assms(2) that] by simp
  have "saturate b = - 1" if "2 ^ 64 - 1 \<le> b"
    using that by (intro word_unat_eq_iff [THEN iffD2]) (simp add: unat_saturate unat_max)
  then show ?thesis
    using m scan by (subst (1 2) parse_array_loop) (auto simp: parse_loop.simps [of ?s] unat_saturate)
qed

theorem parse_array_unchecked_numbers_witness:
  "parse_array_to_bitmask (ranges_text [(0, 3)] @ range_text (64, 71) @ CHR 0x0A # []) = Bad_shift \<and>
   parse_array_to_bitmask (ranges_text [(0, 3)] @ range_text (7, 2 ^ 64) @ CHR 0x0A # []) = Endless"
proof -
  have ok: "\<forall>r \<in> set [(0, 3)]. range_ok r" by (simp add: range_ok_def)
  show ?thesis
    using parse_array_unchecked_numbers [OF ok, of 64 71 "[]"]
      parse_array_unchecked_numbers [OF ok, of 7 "2 ^ 64" "[]"] by simp
qed

text \<open>
  reading and parsing a list file. When the file holds a valid list and its newline and fits the
  buffer, the program exits with 0 and the parsed mask is the one of the list, whatever the
  uninitialised stack buffer held before; the second parse, of the built-in list, gives \<open>0x5EB\<close>. The
  descriptor is closed exactly when \<open>read\<close> succeeds; when it fails the program returns \<open>errno\<close> with
  the descriptor still open.
\<close>
theorem parser_main_result:
  assumes "\<forall>r \<in> set rs. range_ok r" and "range_ok r" and "open_result e \<noteq> - 1"
    and "length stack = BUFFER_SIZE" and "length (ranges_text rs @ range_text r) < BUFFER_SIZE"
    and "read_result e \<in> {None, Some (ranges_text rs @ range_text r @ [CHR 0x0A])}"
    and "file_errno e \<noteq> 0"
  shows "case read_result e of
      None \<Rightarrow> parser_main stack e = (Some (file_errno e), [], [Acquire (open_result e)])
    | Some bytes \<Rightarrow> (\<exists>m. parser_main stack e =
        (Some 0, [Parsed m, Parsed 0x5EB], [Acquire (open_result e), Release (open_result e)]) \<and>
        (\<forall>n < 64. bit m n \<longleftrightarrow> in_ranges n (rs @ [r])))"
proof (cases "read_result e")
  case None
  then show ?thesis using assms by (simp add: parser_main_def read_sysfs_str_def Let_def)
next
  case (Some bytes)
  let ?l = "ranges_text rs @ range_text r"
  have bytes: "bytes = ?l @ [CHR 0x0A]" using assms(6) Some by simp
  have "read_sysfs_str stack e = (0, ?l @ CHR 0x0A # drop (Suc (length ?l)) stack,
      [Acquire (open_result e), Release (open_result e)])"
    using assms(3-5) Some bytes by (simp add: read_sysfs_str_def Let_def)
  moreover from parse_valid_ranges [OF assms(1,2), of "drop (Suc (length ?l)) stack"]
  obtain m where "parse_array_to_bitmask (?l @ CHR 0x0A # drop (Suc (length ?l)) stack) = Parsed m"
    "\<forall>n < 64. bit m n \<longleftrightarrow> in_ranges n (rs @ [r])" by auto
  ultimately show ?thesis
    using Some builtin_list_parsed by (simp add: parser_main_def parse_status_def)
qed

theorem parser_main_result_witness:
  "\<exists>m. parser_main (replicate 64 CHR ''?'') \<lparr>open_result = 3, read_result = Some (''0-3'' @ [CHR 0x0A]), file_errno = 5\<rparr> =
    (Some 0, [Parsed m, Parsed 0x5EB], [Acquire 3, Release 3]) \<and> bit m 2 \<and> \<not> bit m 4"
proof -
  let ?e = "\<lparr>open_result = 3, read_result = Some (''0-3'' @ [CHR 0x0A]), file_errno = 5\<rparr>"
  have printed: "ranges_text [] @ range_text (0, 3) = ''0-3''"
    by code_simp
  have "range_ok (0, 3)" by (simp add: range_ok_def)
  with parser_main_result [of "[]" "(0, 3)" ?e "replicate 64 CHR ''?''"] show ?thesis
    unfolding append_assoc [symmetric] printed by (auto simp: BUFFER_SIZE_def in_ranges_def)
qed

end
