(* ===== verification/WorkQueue.thy ===== *)
theory WorkQueue
  imports Machine
begin

text \<open>
  The work queue demo \<open>kernel-module/kernel-tasks/work_queue_demo.c\<close>. The module's init schedules a
  static and a heap-allocated work item; each scheduled item holds a reference to the module until its
  function has run. The state has the module's reference count, the queue, the items being executed
  and the live allocations. What the kernel calls return is given by \<open>kcalls\<close>. The steps are init,
  a worker picking up a queued item, the two work functions, and unloading, which the kernel refuses
  while the count is positive.
\<close>

section \<open>State and operations\<close>

datatype work = Static_work | Dynamic_work nat

record wq =
  loaded :: bool
  module_refs :: nat
  queued :: "work list"
  running :: "work list"
  heap :: "nat list"

record kcalls =
  get_static :: bool          \<comment> \<open>\<open>try_module_get\<close> in \<open>schedule_static_work\<close>\<close>
  sched_static :: bool        \<comment> \<open>\<open>schedule_work (&static_work)\<close>\<close>
  kmalloc :: "nat option"
  get_dynamic :: bool
  sched_dynamic :: bool

definition wq_unloaded :: wq where
  "wq_unloaded = \<lparr>loaded = False, module_refs = 0, queued = [], running = [], heap = []\<rparr>"

definition module_put :: "wq \<Rightarrow> wq" where
  "module_put s = s\<lparr>module_refs := module_refs s - 1\<rparr>"

definition module_get :: "wq \<Rightarrow> wq" where
  "module_get s = s\<lparr>module_refs := module_refs s + 1\<rparr>"

definition kfree :: "nat \<Rightarrow> wq \<Rightarrow> wq" where
  "kfree p s = s\<lparr>heap := remove1 p (heap s)\<rparr>"

definition static_work_func :: "wq \<Rightarrow> wq" where
  "static_work_func s = module_put s"

definition schedule_static_work :: "kcalls \<Rightarrow> wq \<Rightarrow> wq" where
  "schedule_static_work k s =
     (if \<not> get_static k then s
      else let s1 = module_get s in
        if sched_static k then s1\<lparr>queued := queued s1 @ [Static_work]\<rparr> else module_put s1)"

definition dynamic_work_func :: "nat \<Rightarrow> wq \<Rightarrow> wq" where
  "dynamic_work_func my_dynamic_work s = module_put (kfree my_dynamic_work s)"

definition schedule_dynamic_work :: "kcalls \<Rightarrow> wq \<Rightarrow> wq outcome" where
  "schedule_dynamic_work k s = (case kmalloc k of
     None \<Rightarrow> Crashed
   | Some p \<Rightarrow>
       let s1 = s\<lparr>heap := p # heap s\<rparr> in
       if \<not> get_dynamic k then Running (kfree p s1)
       else let s2 = module_get s1 in
         if \<not> sched_dynamic k then Running (kfree p (module_put s2))
         else Running (s2\<lparr>queued := queued s2 @ [Dynamic_work p]\<rparr>))"

definition demo_workqueue_init :: "kcalls \<Rightarrow> wq \<Rightarrow> wq outcome" where
  "demo_workqueue_init k s = schedule_dynamic_work k (schedule_static_work k (s\<lparr>loaded := True\<rparr>))"

definition demo_workqueue_exit :: "wq \<Rightarrow> wq" where
  "demo_workqueue_exit s = s\<lparr>loaded := False\<rparr>"

definition run_work :: "work \<Rightarrow> wq \<Rightarrow> wq" where
  "run_work w s = (let s1 = s\<lparr>running := remove1 w (running s)\<rparr> in
     case w of Static_work \<Rightarrow> static_work_func s1 | Dynamic_work p \<Rightarrow> dynamic_work_func p s1)"

inductive wq_step :: "wq \<Rightarrow> wq \<Rightarrow> bool" where
  insmod: "\<not> loaded s \<Longrightarrow> demo_workqueue_init k s = Running t \<Longrightarrow> wq_step s t"
| pick: "queued s = w # ws \<Longrightarrow> wq_step s (s\<lparr>queued := ws, running := w # running s\<rparr>)"
| work_done: "w \<in> set (running s) \<Longrightarrow> wq_step s (run_work w s)"
| rmmod: "loaded s \<Longrightarrow> module_refs s = 0 \<Longrightarrow> wq_step s (demo_workqueue_exit s)"

lemmas wq_ops = module_put_def module_get_def kfree_def static_work_func_def schedule_static_work_def
  dynamic_work_func_def schedule_dynamic_work_def demo_workqueue_init_def demo_workqueue_exit_def run_work_def

section \<open>The invariant\<close>

definition pending :: "wq \<Rightarrow> work list" where
  "pending s = queued s @ running s"

fun block_of :: "work \<Rightarrow> nat list" where
  "block_of Static_work = []" | "block_of (Dynamic_work p) = [p]"

definition blocks :: "work list \<Rightarrow> nat multiset" where
  "blocks ws = (\<Sum>w \<in># mset ws. mset (block_of w))"

lemma blocks_simps [simp]:
  "blocks [] = {#}" "blocks (w # ws) = mset (block_of w) + blocks ws" "blocks (ws @ vs) = blocks ws + blocks vs"
  by (simp_all add: blocks_def)

lemma blocks_remove1:
  "w \<in> set ws \<Longrightarrow> blocks ws = mset (block_of w) + blocks (remove1 w ws)"
  by (induction ws) (auto simp: ac_simps)

definition wq_inv :: "wq \<Rightarrow> bool" where
  "wq_inv s \<longleftrightarrow> module_refs s = length (pending s) \<and> mset (heap s) = blocks (pending s) \<and>
     (\<not> loaded s \<longrightarrow> pending s = [])"

lemma wq_inv_unloaded: "wq_inv wq_unloaded"
  by (simp add: wq_inv_def wq_unloaded_def pending_def)

lemma wq_inv_static: "wq_inv s \<Longrightarrow> loaded s \<Longrightarrow> wq_inv (schedule_static_work k s)"
  by (simp add: wq_inv_def pending_def wq_ops Let_def)

lemma wq_inv_dynamic:
  "wq_inv s \<Longrightarrow> loaded s \<Longrightarrow> schedule_dynamic_work k s = Running t \<Longrightarrow> wq_inv t"
  by (auto simp: wq_inv_def pending_def wq_ops Let_def split: option.splits if_splits)

lemma wq_inv_init:
  assumes "wq_inv s" "\<not> loaded s" "demo_workqueue_init k s = Running t"
  shows "wq_inv t"
proof (rule wq_inv_dynamic)
  show "schedule_dynamic_work k (schedule_static_work k (s\<lparr>loaded := True\<rparr>)) = Running t"
    using assms(3) by (simp add: demo_workqueue_init_def)
  show "wq_inv (schedule_static_work k (s\<lparr>loaded := True\<rparr>))"
    using assms(1) by (intro wq_inv_static) (simp_all add: wq_inv_def pending_def)
  show "loaded (schedule_static_work k (s\<lparr>loaded := True\<rparr>))"
    by (simp add: wq_ops Let_def)
qed

lemma wq_inv_run:
  assumes inv: "wq_inv s" and w: "w \<in> set (running s)"
  shows "wq_inv (run_work w s)"
proof -
  obtain n where len: "length (running s) = Suc n" using w by (cases "running s") auto
  then have "length (remove1 w (running s)) = n" using w by (simp add: length_remove1)
  moreover have "blocks (running s) = mset (block_of w) + blocks (remove1 w (running s))"
    using blocks_remove1 [OF w] .
  ultimately show ?thesis
    using inv w len by (cases w) (auto simp: wq_inv_def pending_def wq_ops Let_def)
qed

lemma wq_inv_step:
  assumes "wq_inv s" "wq_step s t"
  shows "wq_inv t"
  using assms(2)
proof cases
  case (insmod k)
  from wq_inv_init [OF assms(1) this] show ?thesis .
next
  case (work_done w)
  with assms(1) show ?thesis by (simp add: wq_inv_run)
qed (use assms(1) in \<open>auto simp: wq_inv_def pending_def demo_workqueue_exit_def\<close>)

definition wq_start :: "wq \<Rightarrow> bool" where
  "wq_start s \<longleftrightarrow> s = wq_unloaded"

interpretation wq_sys: counted_system wq_start wq_step wq_inv module_refs "\<lambda>s. length (pending s)"
proof unfold_locales
  show "wq_start s \<Longrightarrow> wq_inv s" for s by (simp add: wq_start_def wq_inv_unloaded)
  show "wq_inv s \<Longrightarrow> wq_step s t \<Longrightarrow> wq_inv t" for s t by (rule wq_inv_step)
  show "wq_inv s \<Longrightarrow> module_refs s = length (pending s)" for s by (simp add: wq_inv_def)
qed

section \<open>The queue drains\<close>

lemma wq_drain_one:
  assumes "pending s \<noteq> []" and "wq_inv s"
  shows "\<exists>t. wq_step s t \<and> length (queued t) + length (pending t) < length (queued s) + length (pending s)"
proof (cases "queued s")
  case Nil
  then obtain w where w: "w \<in> set (running s)" using assms by (cases "running s") (auto simp: pending_def)
  then have "length (running s) \<noteq> 0" by auto
  with w Nil show ?thesis
    by (intro exI [of _ "run_work w s"] conjI work_done)
      (auto simp: pending_def wq_ops Let_def length_remove1 split: work.splits)
next
  case (Cons w ws)
  then show ?thesis
    by (intro exI conjI, rule pick) (auto simp: pending_def)
qed

lemma wq_drain:
  "wq_inv s \<Longrightarrow> \<exists>t. wq_step\<^sup>*\<^sup>* s t \<and> wq_inv t \<and> pending t = []"
proof (induction "length (queued s) + length (pending s)" arbitrary: s rule: less_induct)
  case less
  show ?case
  proof (cases "pending s = []")
    case False
    then obtain t where "wq_step s t"
      "length (queued t) + length (pending t) < length (queued s) + length (pending s)"
      using wq_drain_one less.prems by blast
    with less.hyps [of t] less.prems show ?thesis
      by (meson converse_rtranclp_into_rtranclp wq_inv_step)
  qed (use less.prems in blast)
qed

lemma wq_can_unload:
  assumes "wq_inv s"
  shows "\<exists>t. wq_step\<^sup>*\<^sup>* s t \<and> \<not> loaded t \<and> heap t = []"
proof -
  obtain u where u: "wq_step\<^sup>*\<^sup>* s u" "wq_inv u" "pending u = []" using wq_drain assms by blast
  then have idle: "module_refs u = 0" "heap u = []" by (simp_all add: wq_inv_def)
  show ?thesis
  proof (cases "loaded u")
    case True
    with u idle show ?thesis
      by (intro exI [of _ "demo_workqueue_exit u"])
        (auto simp: demo_workqueue_exit_def intro: rtranclp.rtrancl_into_rtrancl rmmod
          [unfolded demo_workqueue_exit_def])
  qed (use u idle in blast)
qed

section \<open>Properties\<close>

text \<open>
  C18: the module cannot go away under its work, and can always be removed in the end. In every
  reachable state the reference count is the number of scheduled works whose function has not
  finished, the live allocations are exactly those of the pending dynamic works, and nothing is pending or
  allocated while the module is not loaded; from there the works can run to completion and the
  module can be unloaded with nothing left allocated.
\<close>
theorem wq_accounting:
  assumes "reach wq_start wq_step s"
  shows "module_refs s = length (pending s) \<and> mset (heap s) = blocks (pending s) \<and>
    (\<not> loaded s \<longrightarrow> pending s = [] \<and> heap s = []) \<and>
    (\<exists>t. wq_step\<^sup>*\<^sup>* s t \<and> \<not> loaded t \<and> heap t = [])"
  using wq_sys.reach_inv [OF assms] wq_sys.reach_refs [OF assms]
    wq_can_unload [OF wq_sys.reach_inv [OF assms]]
  by (auto simp: wq_inv_def)

theorem wq_accounting_witness:
  "(case demo_workqueue_init \<lparr>get_static = True, sched_static = True, kmalloc = Some 5,
     get_dynamic = True, sched_dynamic = True\<rparr> wq_unloaded of
     Running s \<Rightarrow> module_refs s = 2 \<and> mset (heap s) = blocks (pending s) | _ \<Rightarrow> False)"
proof -
  let ?k = "\<lparr>get_static = True, sched_static = True, kmalloc = Some 5, get_dynamic = True, sched_dynamic = True\<rparr>"
  obtain s where s: "demo_workqueue_init ?k wq_unloaded = Running s" "length (pending s) = 2"
    by (simp add: wq_ops wq_unloaded_def pending_def Let_def)
  have "reach wq_start wq_step wq_unloaded" by (rule reach_init) (simp add: wq_start_def)
  then have "reach wq_start wq_step s"
    by (rule reach_step) (rule insmod [OF _ s(1)], simp add: wq_unloaded_def)
  from wq_accounting [OF this] s show ?thesis by simp
qed

text \<open>
  what init does for every answer of the kernel. It crashes exactly when \<open>kmalloc\<close> fails, since the
  result is used unchecked; otherwise each work is queued exactly when the module reference was obtained
  and \<open>schedule_work\<close> accepted it, the memory of a dynamic work that was not queued is freed, and
  the reference count is the number of works queued.
\<close>
theorem wq_init_result:
  "demo_workqueue_init k wq_unloaded = (case kmalloc k of None \<Rightarrow> Crashed
   | Some p \<Rightarrow>
       let st = (if get_static k \<and> sched_static k then [Static_work] else []);
           dy = (if get_dynamic k \<and> sched_dynamic k then [Dynamic_work p] else []) in
       Running \<lparr>loaded = True, module_refs = length (st @ dy), queued = st @ dy, running = [],
         heap = concat (map block_of dy)\<rparr>)"
  by (simp add: wq_ops wq_unloaded_def Let_def split: option.splits)

end
