(* ===== verification/InetIo.thy ===== *)
theory InetIo
  imports Machine
begin

text \<open>
  The packet format of the internet socket demo, \<open>linux-c/socket/inet-socket/inet_io.c\<close>: packets of
  type, length and value sent with \<open>write\<close> and received with \<open>read\<close>. A connection carries a list of
  bytes; the answers of the two system calls (errors, short counts) are part of its state. Memory is
  followed by a trace of allocations and releases. The structures are laid out as the x86-64 ABI does,
  little endian: four bytes of type, four of padding, eight of length.
\<close>

section \<open>Packets\<close>

datatype payload_type = DEMO_STRING_PAYLOAD | DEMO_UINT64_PAYLOAD | DEMO_INT_ARRAY_PAYLOAD | DEMO_STRUCT_PAYLOAD

fun type_code :: "payload_type \<Rightarrow> nat" where
  "type_code DEMO_STRING_PAYLOAD = 0" | "type_code DEMO_UINT64_PAYLOAD = 1"
| "type_code DEMO_INT_ARRAY_PAYLOAD = 2" | "type_code DEMO_STRUCT_PAYLOAD = 3"

lemma type_code_bound: "type_code t < 4"
  by (cases t) auto

record demo_metadata =
  mtype :: nat      \<comment> \<open>what the four bytes of the enum hold\<close>
  mlength :: nat

record demo_packet =
  metadata :: demo_metadata
  payload :: "u8 list option"   \<comment> \<open>\<open>None\<close> is \<open>NULL\<close>\<close>

definition DEMO_STR_INFO_LEN :: nat where "DEMO_STR_INFO_LEN = 7"
definition metadata_size :: nat where "metadata_size = 16"
definition struct_payload_size :: nat where "struct_payload_size = 16"

definition metadata_bytes :: "u8 list \<Rightarrow> nat \<Rightarrow> nat \<Rightarrow> u8 list" where
  \<comment> \<open>the first argument is what the four padding bytes happen to hold\<close>
  "metadata_bytes pad type len = le_bytes 4 type @ pad @ le_bytes 8 len"

definition read_metadata :: "u8 list \<Rightarrow> demo_metadata" where
  "read_metadata bs = \<lparr>mtype = le_val (take 4 bs), mlength = le_val (take 8 (drop 8 bs))\<rparr>"

section \<open>System calls\<close>

datatype answer = Fails | Upto nat

record conn =
  out_bytes :: "u8 list"          \<comment> \<open>what has been written\<close>
  in_bytes :: "u8 list"           \<comment> \<open>what the peer wrote and has not been read\<close>
  answers :: "answer list"        \<comment> \<open>of the coming calls; a call with no answer left is done in full\<close>

definition next_answer :: "nat \<Rightarrow> conn \<Rightarrow> nat option \<times> conn" where
  "next_answer n c = (case answers c of
     [] \<Rightarrow> (Some n, c)
   | Fails # as \<Rightarrow> (None, c\<lparr>answers := as\<rparr>)
   | Upto k # as \<Rightarrow> (Some (min k n), c\<lparr>answers := as\<rparr>))"

definition c_write :: "u8 list \<Rightarrow> conn \<Rightarrow> int \<times> conn" where
  "c_write bs c = (case next_answer (length bs) c of
     (None, c1) \<Rightarrow> (- 1, c1)
   | (Some k, c1) \<Rightarrow> (int k, c1\<lparr>out_bytes := out_bytes c1 @ take k bs\<rparr>))"

definition c_read :: "nat \<Rightarrow> conn \<Rightarrow> int \<times> u8 list \<times> conn" where
  "c_read n c = (case next_answer (min n (length (in_bytes c))) c of
     (None, c1) \<Rightarrow> (- 1, [], c1)
   | (Some k, c1) \<Rightarrow> (int k, take k (in_bytes c1), c1\<lparr>in_bytes := drop k (in_bytes c1)\<rparr>))"

section \<open>Sending and receiving\<close>

definition send_packet :: "u8 list \<Rightarrow> payload_type \<Rightarrow> nat \<Rightarrow> u8 list \<Rightarrow> conn \<Rightarrow> int \<times> conn" where
  "send_packet pad type len value c =
     (case c_write (metadata_bytes pad (type_code type) len) c of (num_bytes, c1) \<Rightarrow>
        if num_bytes = - 1 then (- 1, c1)
        else if num_bytes < 0 \<or> nat num_bytes \<noteq> metadata_size then (- 1, c1)
        else if len = 0 then (0, c1)
        else case c_write (take len value) c1 of (num_bytes, c2) \<Rightarrow>
          if num_bytes = - 1 then (- 1, c2)
          else if num_bytes < 0 \<or> nat num_bytes \<noteq> len then (- 1, c2)
          else (0, c2))"

datatype block = Packet_block | Payload_block

record mallocs =
  malloc_packet :: bool
  malloc_payload :: "nat \<Rightarrow> bool"   \<comment> \<open>by size\<close>

definition recv_payload :: "mallocs \<Rightarrow> conn \<Rightarrow> demo_packet option \<times> conn \<times> block rev list" where
  "recv_payload m c =
     (if \<not> malloc_packet m then (None, c, [])
      else case c_read metadata_size c of (num_bytes, bs, c1) \<Rightarrow>
        if num_bytes = - 1 then (None, c1, [Acquire Packet_block, Release Packet_block])
        else if num_bytes < 0 \<or> nat num_bytes \<noteq> metadata_size
        then (None, c1, [Acquire Packet_block, Release Packet_block])
        else let md = read_metadata bs in
          if mlength md = 0 then (Some \<lparr>metadata = md, payload = None\<rparr>, c1, [Acquire Packet_block])
          else if \<not> malloc_payload m (mlength md)
          then (None, c1, [Acquire Packet_block, Release Packet_block])
          else case c_read (mlength md) c1 of (num_bytes, bs, c2) \<Rightarrow>
            if num_bytes = - 1
            then (None, c2, [Acquire Packet_block, Acquire Payload_block, Release Packet_block])
            else if num_bytes < 0 \<or> nat num_bytes \<noteq> mlength md
            then (None, c2, [Acquire Packet_block, Acquire Payload_block, Release Packet_block])
            else (Some \<lparr>metadata = md, payload = Some bs\<rparr>, c2,
                  [Acquire Packet_block, Acquire Payload_block]))"

definition free_packet :: "demo_packet \<Rightarrow> block rev list" where
  "free_packet packet =
     (if payload packet \<noteq> None then [Release Payload_block] else []) @ [Release Packet_block]"

section \<open>Printing a packet\<close>

definition payload_type_str :: "string list" where
  "payload_type_str = [''string'', ''unsigned number'', ''integer array'', ''user-defined struct'']"

fun int_items :: "nat \<Rightarrow> u8 list \<Rightarrow> string" where
  \<comment> \<open>\<open>while (count--) printf(" %d", *cursor++)\<close>\<close>
  "int_items 0 bs = []"
| "int_items (Suc n) bs =
     '' '' @ dec_of_int (sint (word_of_nat (le_val (take 4 bs)) :: u32)) @ int_items n (drop 4 bs)"

text \<open>
  \<open>print_payload\<close>; \<open>value\<close> is the memory block the pointer refers to, \<open>None\<close> for \<open>NULL\<close>. A read
  outside of the block, of \<open>payload_type_str\<close> or through \<open>NULL\<close> is \<open>Crashed\<close>.
\<close>

definition payload_text :: "nat \<Rightarrow> nat \<Rightarrow> u8 list option \<Rightarrow> string outcome" where
  \<comment> \<open>the branches on the type\<close>
  "payload_text type len value =
     (if type = type_code DEMO_STRING_PAYLOAD then
        (case value of None \<Rightarrow> Crashed | Some bs \<Rightarrow>
           if 0 \<in> set bs then Running (map byte_char (takeWhile (\<lambda>b. b \<noteq> 0) bs)) else Crashed)
      else if type = type_code DEMO_UINT64_PAYLOAD then
        (case value of None \<Rightarrow> Crashed | Some bs \<Rightarrow>
           if length bs < 8 then Crashed else Running (printf_hex (le_val (take 8 bs))))
      else if type = type_code DEMO_INT_ARRAY_PAYLOAD then
        (let cnt = len div 4 in
         if cnt = 0 then Running ''[ ]''
         else case value of None \<Rightarrow> Crashed | Some bs \<Rightarrow>
           if length bs < 4 * cnt then Crashed else Running (''['' @ int_items cnt bs @ '' ]''))
      else if type = type_code DEMO_STRUCT_PAYLOAD then
        (case value of None \<Rightarrow> Crashed | Some bs \<Rightarrow>
           if length bs < struct_payload_size \<or> 0 \<notin> set bs then Crashed
           else Running (''{str_info='' @ map byte_char (takeWhile (\<lambda>b. b \<noteq> 0) bs) @ '', magic='' @
             printf_hex (le_val (take 8 (drop 8 bs))) @ ''}''))
      else Running ''not-printable'')"

definition print_payload :: "nat \<Rightarrow> nat \<Rightarrow> u8 list option \<Rightarrow> string outcome" where
  "print_payload type len value =
     (if length payload_type_str \<le> type then Crashed
      else bind_outcome (payload_text type len value)
        (\<lambda>v. Running (''packet: type='' @ dec_of type @ ''('' @ payload_type_str ! type @ ''), length='' @
           dec_of_int (sint (word_of_nat len :: u64)) @ '', value='' @ v @ [CHR 0x0A])))"

section \<open>Lemmas\<close>

lemma payload_text_cases:
  "payload_text 0 len (Some bs) \<noteq> Crashed \<longleftrightarrow> 0 \<in> set bs"
  "payload_text 1 len (Some bs) \<noteq> Crashed \<longleftrightarrow> 8 \<le> length bs"
  "payload_text 2 len (Some bs) \<noteq> Crashed \<longleftrightarrow> len div 4 = 0 \<or> 4 * (len div 4) \<le> length bs"
  "payload_text 3 len (Some bs) \<noteq> Crashed \<longleftrightarrow> 16 \<le> length bs \<and> 0 \<in> set bs"
  "payload_text 2 0 None \<noteq> Crashed"
  "payload_text 0 len None = Crashed" "payload_text 1 len None = Crashed" "payload_text 3 len None = Crashed"
  "payload_text t len v \<noteq> Exited e"
  by (simp_all add: payload_text_def struct_payload_size_def Let_def not_less split: option.splits)

lemma print_payload_crash_iff:
  "print_payload t len v = Crashed \<longleftrightarrow> 4 \<le> t \<or> payload_text t len v = Crashed"
  by (cases "payload_text t len v") (simp_all add: print_payload_def payload_type_str_def payload_text_cases)

lemma print_payload_runs: "print_payload t len v \<noteq> Crashed \<Longrightarrow> \<exists>s. print_payload t len v = Running s"
  by (cases "payload_text t len v")
    (simp_all add: print_payload_def payload_text_cases split: if_splits)

lemma read_metadata_bytes:
  assumes "length pad = 4" "type < 2 ^ 32" "len < 2 ^ 64"
  shows "read_metadata (metadata_bytes pad type len) = \<lparr>mtype = type, mlength = len\<rparr>"
  using assms by (simp add: read_metadata_def metadata_bytes_def)

lemma length_metadata_bytes [simp]:
  "length pad = 4 \<Longrightarrow> length (metadata_bytes pad type len) = metadata_size"
  by (simp add: metadata_bytes_def metadata_size_def)

lemma c_write_full [simp]:
  "answers c = [] \<Longrightarrow> c_write bs c = (int (length bs), c\<lparr>out_bytes := out_bytes c @ bs\<rparr>)"
  by (simp add: c_write_def next_answer_def)

lemma c_read_full [simp]:
  "answers c = [] \<Longrightarrow> c_read n c =
    (int (min n (length (in_bytes c))), take n (in_bytes c), c\<lparr>in_bytes := drop n (in_bytes c)\<rparr>)"
  by (simp add: c_read_def next_answer_def min_def)

lemma c_read_result:
  "c_read n c = (r, bs, c') \<Longrightarrow> in_bytes c = bs @ in_bytes c' \<and>
    (r = - 1 \<and> bs = [] \<or> r = int (length bs) \<and> length bs \<le> n)"
  by (auto simp: c_read_def next_answer_def split: list.splits answer.splits)

definition packet_bytes :: "u8 list \<Rightarrow> payload_type \<Rightarrow> u8 list \<Rightarrow> u8 list" where
  "packet_bytes pad type value = metadata_bytes pad (type_code type) (length value) @ value"

definition packet_of :: "payload_type \<Rightarrow> u8 list \<Rightarrow> demo_packet" where
  "packet_of type value = \<lparr>metadata = \<lparr>mtype = type_code type, mlength = length value\<rparr>,
     payload = (if value = [] then None else Some value)\<rparr>"

lemma send_packet_full:
  "length pad = 4 \<Longrightarrow> answers c = [] \<Longrightarrow>
    send_packet pad type (length value) value c =
      (0, c\<lparr>out_bytes := out_bytes c @ packet_bytes pad type value\<rparr>)"
  by (simp add: send_packet_def packet_bytes_def metadata_size_def)

lemma recv_payload_full:
  assumes "length pad = 4" "length value < 2 ^ 64" "answers c = []" "malloc_packet m" "malloc_payload m (length value)"
    and "in_bytes c = packet_bytes pad type value @ rest"
  shows "recv_payload m c = (Some (packet_of type value), c\<lparr>in_bytes := rest\<rparr>,
    Acquire Packet_block # (if value = [] then [] else [Acquire Payload_block]))"
proof -
  have md: "read_metadata (take metadata_size (in_bytes c)) = \<lparr>mtype = type_code type, mlength = length value\<rparr>"
    using assms type_code_bound [of type] by (simp add: packet_bytes_def read_metadata_bytes)
  have rest: "drop metadata_size (in_bytes c) = value @ rest" "metadata_size \<le> length (in_bytes c)"
    using assms by (simp_all add: packet_bytes_def)
  show ?thesis
    using assms(3-5) md rest
    by (auto simp: recv_payload_def packet_of_def Let_def metadata_size_def)
qed

fun send_all :: "(u8 list \<times> payload_type \<times> u8 list) list \<Rightarrow> conn \<Rightarrow> int list \<times> conn" where
  "send_all [] c = ([], c)"
| "send_all ((pad, type, value) # ps) c = (case send_packet pad type (length value) value c of
     (r, c1) \<Rightarrow> case send_all ps c1 of (rs, c2) \<Rightarrow> (r # rs, c2))"

fun recv_all :: "nat \<Rightarrow> mallocs \<Rightarrow> conn \<Rightarrow> demo_packet option list \<times> conn \<times> block rev list" where
  \<comment> \<open>\<open>n\<close> times: receive, and free what was received\<close>
  "recv_all 0 m c = ([], c, [])"
| "recv_all (Suc n) m c = (case recv_payload m c of (p, c1, t) \<Rightarrow>
     case recv_all n m c1 of (ps, c2, t') \<Rightarrow>
       (p # ps, c2, t @ (case p of None \<Rightarrow> [] | Some q \<Rightarrow> free_packet q) @ t'))"

definition packets_ok :: "(u8 list \<times> payload_type \<times> u8 list) list \<Rightarrow> bool" where
  "packets_ok ps = list_all (\<lambda>(pad, type, value). length pad = 4 \<and> length value < 2 ^ 64) ps"

definition packets_bytes :: "(u8 list \<times> payload_type \<times> u8 list) list \<Rightarrow> u8 list" where
  "packets_bytes ps = concat (map (\<lambda>(pad, type, value). packet_bytes pad type value) ps)"

lemma send_all_full:
  "packets_ok ps \<Longrightarrow> answers c = [] \<Longrightarrow>
    send_all ps c = (replicate (length ps) 0, c\<lparr>out_bytes := out_bytes c @ packets_bytes ps\<rparr>)"
  by (induction ps c rule: send_all.induct)
    (auto simp: packets_ok_def packets_bytes_def send_packet_full)

lemma recv_all_full:
  "packets_ok ps \<Longrightarrow> answers c = [] \<Longrightarrow> malloc_packet m \<Longrightarrow>
    \<forall>(pad, type, value) \<in> set ps. malloc_payload m (length value) \<Longrightarrow> in_bytes c = packets_bytes ps @ rest \<Longrightarrow>
    \<exists>t. recv_all (length ps) m c =
      (map (\<lambda>(pad, type, value). Some (packet_of type value)) ps, c\<lparr>in_bytes := rest\<rparr>, t) \<and> balanced t"
proof (induction ps arbitrary: c)
  case Nil
  then show ?case by (auto simp: packets_bytes_def balanced_def)
next
  case (Cons p ps)
  obtain pad type "value" where p: "p = (pad, type, value)" by (cases p)
  let ?t = "Acquire Packet_block # (if value = [] then [] else [Acquire Payload_block])"
  have recv: "recv_payload m c = (Some (packet_of type value), c\<lparr>in_bytes := packets_bytes ps @ rest\<rparr>, ?t)"
    using Cons.prems p by (intro recv_payload_full) (auto simp: packets_ok_def packets_bytes_def)
  from Cons.IH [of "c\<lparr>in_bytes := packets_bytes ps @ rest\<rparr>"] Cons.prems obtain t where t:
    "recv_all (length ps) m (c\<lparr>in_bytes := packets_bytes ps @ rest\<rparr>) =
      (map (\<lambda>(pad, type, value). Some (packet_of type value)) ps, c\<lparr>in_bytes := rest\<rparr>, t)" "balanced t"
    by (auto simp: packets_ok_def)
  have "balanced (?t @ free_packet (packet_of type value))"
    by (simp add: balanced_def free_packet_def packet_of_def)
  from balanced_append [OF this t(2)] recv t(1) p show ?case by simp
qed

lemma recv_payload_cases:
  assumes "recv_payload m c = (r, c', t)"
  obtains "r = None" "balanced t" "\<exists>bs. in_bytes c = bs @ in_bytes c'"
  | md c1 bs n where "c_read metadata_size c = (16, bs, c1)" "md = read_metadata bs" "mlength md \<noteq> 0"
      "r = None" "leaks t {#Payload_block#}" "\<exists>bs. in_bytes c = bs @ in_bytes c'"
      "c_read (mlength md) c1 = n" "fst n \<noteq> int (mlength md)"
  | md where "r = Some \<lparr>metadata = md, payload = None\<rparr>" "mlength md = 0"
      "t = [Acquire Packet_block]" "\<exists>bs. in_bytes c = bs @ in_bytes c'"
  | md bs where "r = Some \<lparr>metadata = md, payload = Some bs\<rparr>" "length bs = mlength md" "mlength md \<noteq> 0"
      "t = [Acquire Packet_block, Acquire Payload_block]" "\<exists>bs. in_bytes c = bs @ in_bytes c'"
proof -
  obtain n1 bs1 c1 where r1: "c_read metadata_size c = (n1, bs1, c1)" by (metis prod_cases3)
  let ?md = "read_metadata bs1"
  obtain n2 bs2 c2 where r2: "c_read (mlength ?md) c1 = (n2, bs2, c2)" by (metis prod_cases3)
  have p1: "\<exists>bs. in_bytes c = bs @ in_bytes c1" and p12: "\<exists>bs. in_bytes c = bs @ in_bytes c2"
    using c_read_result [OF r1] c_read_result [OF r2] by (metis append_assoc)+
  note traces = trace_eval
  show thesis
  proof (cases "malloc_packet m \<and> n1 = 16 \<and> mlength ?md \<noteq> 0 \<and> malloc_payload m (mlength ?md) \<and> n2 \<noteq> int (mlength ?md)")
    case True
    then show thesis
      using assms r1 r2 p12 c_read_result [OF r2]
      by (intro that(2) [of bs1 c1 ?md]) (auto simp: recv_payload_def metadata_size_def traces Let_def split: if_splits)
  next
    case not_short: False
    show thesis
    proof (cases "malloc_packet m \<and> n1 = 16 \<and> (mlength ?md = 0 \<or> malloc_payload m (mlength ?md))")
      case True
      then show thesis
        using assms r1 r2 not_short p1 p12 c_read_result [OF r2] that(3) [of ?md] that(4) [of ?md bs2]
        by (auto simp: recv_payload_def metadata_size_def Let_def split: if_splits)
    next
      case False
      then show thesis
        using assms r1 r2 p1 c_read_result [OF r1] that(1)
        by (auto simp: recv_payload_def metadata_size_def Let_def traces split: if_splits)
    qed
  qed
qed

subsection \<open>Streams on which calls may fail\<close>

lemma c_write_result:
  "c_write bs c = (r, c') \<Longrightarrow> \<exists>k. out_bytes c' = out_bytes c @ take k bs \<and>
     (r = - 1 \<or> r = int (length (take k bs)) \<and> (r = int (length bs) \<longrightarrow> out_bytes c' = out_bytes c @ bs))"
  by (auto simp: c_write_def next_answer_def split: list.splits answer.splits intro: exI [of _ "nat r"])

lemma send_packet_written:
  assumes "send_packet pad type (length value) value c = (r, c')" "length pad = 4"
  shows "\<exists>bs. out_bytes c' = out_bytes c @ bs \<and> (r = 0 \<longrightarrow> bs = packet_bytes pad type value)"
proof -
  obtain n1 c1 where w1: "c_write (metadata_bytes pad (type_code type) (length value)) c = (n1, c1)" by fastforce
  obtain n2 c2 where w2: "c_write (take (length value) value) c1 = (n2, c2)" by fastforce
  note res = c_write_result [OF w1] c_write_result [OF w2]
  show ?thesis
  proof (cases "n1 = 16")
    case True
    then have o1: "out_bytes c1 = out_bytes c @ metadata_bytes pad (type_code type) (length value)"
      using res(1) assms(2) by (auto simp: metadata_size_def)
    show ?thesis
      using assms w1 w2 res(2) True o1
      by (auto simp: send_packet_def packet_bytes_def metadata_size_def split: if_splits)
  next
    case False
    then have "r = - 1" "c' = c1" using assms(1) w1 by (auto simp: send_packet_def metadata_size_def split: if_splits)
    then show ?thesis using res(1) by auto
  qed
qed

lemma send_all_length: "send_all ps c = (rets, c') \<Longrightarrow> length rets = length ps"
  by (induction ps c arbitrary: rets c' rule: send_all.induct) (auto split: prod.splits)

lemma recv_all_length: "recv_all n m c = (rs, c', t) \<Longrightarrow> length rs = n"
  by (induction n arbitrary: c rs c' t) (auto split: prod.splits)

lemma send_all_appends:
  "send_all ps c = (rets, c') \<Longrightarrow> packets_ok ps \<Longrightarrow> \<exists>bs. out_bytes c' = out_bytes c @ bs"
proof (induction ps c arbitrary: rets c' rule: send_all.induct)
  case (2 pad type "value" ps c)
  obtain r c1 where s: "send_packet pad type (length value) value c = (r, c1)" by fastforce
  obtain rs c2 where rest: "send_all ps c1 = (rs, c2)" by fastforce
  have "length pad = 4" "packets_ok ps" using "2.prems"(2) by (auto simp: packets_ok_def)
  with "2.IH" [OF s [symmetric] rest] send_packet_written [OF s] "2.prems"(1) show ?case
    by (auto simp: s rest)
qed simp

lemma send_all_prefix:
  "send_all ps c = (rets, c') \<Longrightarrow> packets_ok ps \<Longrightarrow>
     \<exists>rest. out_bytes c' = out_bytes c @ packets_bytes (take (length (takeWhile (\<lambda>r. r = 0) rets)) ps) @ rest \<and>
       (length (takeWhile (\<lambda>r. r = 0) rets) = length ps \<longrightarrow> rest = [])"
proof (induction ps c arbitrary: rets c' rule: send_all.induct)
  case (1 c)
  then show ?case by (simp add: packets_bytes_def)
next
  case (2 pad type "value" ps c)
  obtain r c1 where s: "send_packet pad type (length value) value c = (r, c1)" by fastforce
  obtain rs c2 where rest: "send_all ps c1 = (rs, c2)" by fastforce
  have ok: "length pad = 4" "packets_ok ps" using "2.prems"(2) by (auto simp: packets_ok_def)
  have run: "rets = r # rs" "c' = c2" using "2.prems"(1) by (simp_all add: s rest)
  obtain bs where bs: "out_bytes c1 = out_bytes c @ bs" "r = 0 \<longrightarrow> bs = packet_bytes pad type value"
    using send_packet_written [OF s ok(1)] by blast
  show ?case
  proof (cases "r = 0")
    case True
    from "2.IH" [OF s [symmetric] rest ok(2)] True bs show ?thesis
      by (auto simp: run packets_bytes_def)
  next
    case False
    then show ?thesis
      using bs(1) send_all_appends [OF rest ok(2)] by (auto simp: run packets_bytes_def)
  qed
qed

lemma recv_payload_takes:
  assumes "recv_payload m c = (Some p, c', t)" "length pad = 4" "length value < 2 ^ 64"
    and "in_bytes c = packet_bytes pad type value @ rest"
  shows "p = packet_of type value \<and> in_bytes c' = rest"
proof -
  obtain n1 bs1 c1 where r1: "c_read metadata_size c = (n1, bs1, c1)" by (metis prod_cases3)
  let ?md = "read_metadata bs1"
  obtain n2 bs2 c2 where r2: "c_read (mlength ?md) c1 = (n2, bs2, c2)" by (metis prod_cases3)
  have n1: "n1 = 16" using assms(1) r1 by (auto simp: recv_payload_def metadata_size_def split: if_splits)
  then have len: "length bs1 = metadata_size" and in1: "bs1 @ in_bytes c1 = in_bytes c"
    using c_read_result [OF r1] by (auto simp: metadata_size_def)
  then have bs1: "bs1 = metadata_bytes pad (type_code type) (length value)" and in2: "in_bytes c1 = value @ rest"
    using assms(2,4) by (auto simp: packet_bytes_def append_eq_append_conv)
  have md: "?md = \<lparr>mtype = type_code type, mlength = length value\<rparr>"
    unfolding bs1 using assms(2,3) type_code_bound [of type] by (simp add: read_metadata_bytes)
  show ?thesis
  proof (cases "value = []")
    case True
    then show ?thesis
      using assms(1) r1 n1 md in2 by (auto simp: recv_payload_def metadata_size_def packet_of_def Let_def split: if_splits)
  next
    case False
    then have n2: "n2 = int (length value)" "p = \<lparr>metadata = ?md, payload = Some bs2\<rparr>" "c' = c2"
      using assms(1) r1 r2 n1 md by (auto simp: recv_payload_def metadata_size_def Let_def split: if_splits)
    with c_read_result [OF r2] in2 have "bs2 = value" "in_bytes c2 = rest" by auto
    then show ?thesis using n2 md False by (simp add: packet_of_def)
  qed
qed

lemma recv_all_prefix:
  assumes "recv_all n m c = (rs, c', t)" "packets_ok qs" "in_bytes c = packets_bytes qs @ rest"
  shows "take (min (length qs) (length (takeWhile (\<lambda>r. r \<noteq> None) rs))) rs =
      map (\<lambda>(pad, type, value). Some (packet_of type value))
        (take (min (length qs) (length (takeWhile (\<lambda>r. r \<noteq> None) rs))) qs)"
    and "length qs = n \<Longrightarrow> \<forall>r \<in> set rs. r \<noteq> None \<Longrightarrow> in_bytes c' = rest"
  using assms
proof (induction qs arbitrary: n c rs c' t)
  case (Cons q qs)
  obtain pad type "value" where q: "q = (pad, type, value)" by (cases q)
  {
    case 1
    show ?case
    proof (cases n)
      case 0
      then show ?thesis using 1 by simp
    next
      case (Suc k)
      obtain p c1 t1 where r: "recv_payload m c = (p, c1, t1)" by (metis prod_cases3)
      obtain ps c2 t2 where rs: "recv_all k m c1 = (ps, c2, t2)" by (metis prod_cases3)
      have eq: "rs = p # ps" using 1 by (simp add: Suc r rs)
      show ?thesis
      proof (cases p)
        case (Some x)
        have "x = packet_of type value" "in_bytes c1 = packets_bytes qs @ rest"
          using recv_payload_takes [OF r [unfolded Some], of pad "value" type "packets_bytes qs @ rest"] 1
          by (simp_all add: q packets_ok_def packets_bytes_def)
        with Cons.IH(1) [OF rs] 1 show ?thesis by (simp add: eq Some q packets_ok_def)
      qed (simp add: eq)
    qed
  next
    case 2
    then obtain k where k: "n = Suc k" by auto
    obtain p c1 t1 where r: "recv_payload m c = (p, c1, t1)" by (metis prod_cases3)
    obtain ps c2 t2 where rs: "recv_all k m c1 = (ps, c2, t2)" by (metis prod_cases3)
    have eq: "rs = p # ps" "c' = c2" using 2 by (simp_all add: k r rs)
    then obtain x where Some: "p = Some x" using 2 by auto
    have "in_bytes c1 = packets_bytes qs @ rest"
      using recv_payload_takes [OF r [unfolded Some], of pad "value" type "packets_bytes qs @ rest"] 2
      by (simp_all add: q packets_ok_def packets_bytes_def)
    with Cons.IH(2) [OF _ _ rs] 2 show ?case by (simp add: eq k packets_ok_def)
  }
qed (auto simp: packets_bytes_def)

lemma recv_all_leaks:
  "recv_all n m c = (rs, c', t) \<Longrightarrow>
     \<exists>l \<le> length (filter (\<lambda>r. r = None) rs). leaks t (replicate_mset l Payload_block)"
proof (induction n arbitrary: c rs c' t)
  case 0
  then show ?case by (auto simp: leaks_def)
next
  case (Suc n)
  obtain p c1 t1 where r: "recv_payload m c = (p, c1, t1)" by (metis prod_cases3)
  obtain ps c2 t2 where rs: "recv_all n m c1 = (ps, c2, t2)" by (metis prod_cases3)
  let ?free = "case p of None \<Rightarrow> [] | Some q \<Rightarrow> free_packet q"
  have eq: "rs = p # ps" "t = (t1 @ ?free) @ t2" using Suc.prems by (simp_all add: r rs)
  obtain l where l: "l \<le> length (filter (\<lambda>r. r = None) ps)" "leaks t2 (replicate_mset l Payload_block)"
    using Suc.IH [OF rs] by blast
  have "leaks (t1 @ ?free) {#} \<or> p = None \<and> leaks (t1 @ ?free) {#Payload_block#}"
    using r by (cases rule: recv_payload_cases) (auto simp: leaks_none balanced_def free_packet_def)
  then show ?case
  proof (elim disjE conjE)
    assume "leaks (t1 @ ?free) {#}"
    from leaks_append [OF this l(2)] l(1) show ?thesis unfolding eq by (intro exI [of _ l]) simp
  next
    assume "p = None" and "leaks (t1 @ ?free) {#Payload_block#}"
    from leaks_append [OF this(2) l(2)] \<open>p = None\<close> l(1) show ?thesis
      unfolding eq by (intro exI [of _ "Suc l"]) simp
  qed
qed

section \<open>Properties\<close>

text \<open>
  C7: what a stream of packets delivers, whatever the system calls and the allocator do. The peer sends any packets
  (every type, every value below 2^64 bytes, any padding), and as many are received. Up to the first send that
  does not return 0 and the first receive that returns \<open>NULL\<close> (a failed or short \<open>read\<close> or
  \<open>write\<close>, or no memory), the packets received are those sent, in order. If none of the calls fails,
  this is all of them, nothing is left in the stream, and no memory either; each receive that returns \<open>NULL\<close> loses at
  most one payload. No call fails when memory is found, no system call is cut short, and no value is
  longer than the 0x7ffff000 bytes that Linux transfers at once.
\<close>
theorem packet_stream_roundtrip:
  assumes "packets_ok ps" "out_bytes tx = []" "send_all ps tx = (rets, tx')"
    and "in_bytes rx = out_bytes tx'" "recv_all (length ps) m rx = (rs, rx', t)"
    and "k = min (length (takeWhile (\<lambda>r. r = 0) rets)) (length (takeWhile (\<lambda>r. r \<noteq> None) rs))"
  shows "take k rs = map (\<lambda>(pad, type, value). Some (packet_of type value)) (take k ps) \<and>
    (k = length ps \<longrightarrow> in_bytes rx' = [] \<and> balanced t) \<and>
    (\<exists>l \<le> length (filter (\<lambda>r. r = None) rs). leaks t (replicate_mset l Payload_block)) \<and>
    (answers tx = [] \<and> answers rx = [] \<and> malloc_packet m \<and>
       (\<forall>(pad, type, value) \<in> set ps. length value \<le> 0x7ffff000 \<and> malloc_payload m (length value)) \<longrightarrow> k = length ps)"
proof -
  let ?sent = "length (takeWhile (\<lambda>r. r = 0) rets)"
  obtain rest where rest: "out_bytes tx' = packets_bytes (take ?sent ps) @ rest" "?sent = length ps \<Longrightarrow> rest = []"
    using send_all_prefix [OF assms(3)] assms(1,2) by auto
  have len: "length rets = length ps" "length rs = length ps"
    using send_all_length [OF assms(3)] recv_all_length [OF assms(5)] by simp_all
  have le: "?sent \<le> length ps" using length_takeWhile_le [of "\<lambda>r. r = 0" rets] len(1) by simp
  then have "packets_ok (take ?sent ps)" "length (take ?sent ps) = ?sent"
    using assms(1) by (auto simp: packets_ok_def list_all_iff dest: in_set_takeD)
  then have prefix: "take k rs = map (\<lambda>(pad, type, value). Some (packet_of type value)) (take k ps)"
    using recv_all_prefix(1) [OF assms(5), of "take ?sent ps" rest] assms(4,6) rest(1) le
    by (simp add: min_def split: if_splits)
  obtain l where l: "l \<le> length (filter (\<lambda>r. r = None) rs)" "leaks t (replicate_mset l Payload_block)"
    using recv_all_leaks [OF assms(5)] by blast
  have all: "in_bytes rx' = [] \<and> balanced t" if "k = length ps"
  proof -
    have sent: "?sent = length ps" "length (takeWhile (\<lambda>r. r \<noteq> None) rs) = length rs"
      using that assms(6) le len length_takeWhile_le [of "\<lambda>r. r \<noteq> None" rs] by (simp_all add: min_def split: if_splits)
    then have none: "\<forall>r \<in> set rs. r \<noteq> None" by (metis set_takeWhileD takeWhile_eq_take take_all_iff le_refl)
    then have "filter (\<lambda>r. r = None) rs = []" by (simp add: filter_empty_conv)
    then have "balanced t" using l by (simp add: leaks_none)
    moreover have "in_bytes rx' = []"
      using recv_all_prefix(2) [OF assms(5), of ps "[]"] assms(1,4) rest sent none by simp
    ultimately show ?thesis by simp
  qed
  have "k = length ps"
    if "answers tx = []" "answers rx = []" "malloc_packet m"
      "\<forall>(pad, type, value) \<in> set ps. length value \<le> 0x7ffff000 \<and> malloc_payload m (length value)"
  proof -
    have rets: "rets = replicate (length ps) 0" and out: "out_bytes tx' = packets_bytes ps"
      using send_all_full [OF assms(1) that(1)] assms(2,3) by simp_all
    have "rs = map (\<lambda>(pad, type, value). Some (packet_of type value)) ps"
      using recv_all_full [OF assms(1) that(2,3), of "[]"] that(4) assms(4,5) out by fastforce
    then have "takeWhile (\<lambda>r. r \<noteq> None) rs = rs" by (auto simp: takeWhile_eq_all_conv)
    moreover have "takeWhile (\<lambda>r. r = 0) rets = rets" by (simp add: rets takeWhile_eq_all_conv)
    ultimately show ?thesis unfolding assms(6) by (simp only: len min.idem)
  qed
  then show ?thesis using prefix l all by blast
qed

text \<open>
  C17: what \<open>recv_payload\<close> gives back, whatever the peer sent and however the reads went. It consumes a
  prefix of the stream. A packet that is returned has a payload of exactly the announced length
  (\<open>NULL\<close> for length 0) and \<open>free_packet\<close> releases all its memory. When \<open>NULL\<close> is returned, all memory
  is released except in one case: when the payload was allocated and its read failed or came
  short, the payload is lost.
\<close>
theorem recv_payload_result:
  assumes "recv_payload m c = (r, c', t)"
  shows "(\<exists>bs. in_bytes c = bs @ in_bytes c') \<and>
    (case r of
       Some p \<Rightarrow> balanced (t @ free_packet p) \<and>
         (case payload p of None \<Rightarrow> mlength (metadata p) = 0
          | Some bs \<Rightarrow> length bs = mlength (metadata p) \<and> mlength (metadata p) \<noteq> 0)
     | None \<Rightarrow> balanced t \<or> leaks t {#Payload_block#} \<and>
         (\<exists>bs c1. c_read metadata_size c = (16, bs, c1) \<and> mlength (read_metadata bs) \<noteq> 0 \<and>
            fst (c_read (mlength (read_metadata bs)) c1) \<noteq> int (mlength (read_metadata bs))))"
  using assms
proof (cases rule: recv_payload_cases)
  case (2 md c1 bs n)
  then show ?thesis by auto
qed (auto simp: balanced_def free_packet_def)

text \<open>
  a payload that the kernel delivers in two pieces is an error. With a complete packet in the
  stream, when the first \<open>read\<close> of the payload returns only its first \<open>k\<close> bytes, \<open>recv_payload\<close>
  returns \<open>NULL\<close>, leaks the payload, and leaves the rest of the value in the stream, where the next
  call will take it for a header.
\<close>
theorem recv_payload_short_read:
  assumes "length pad = 4" and "length value < 2 ^ 64" and "k < length value"
    and "answers c = [Upto 16, Upto k]" and "in_bytes c = packet_bytes pad type value @ rest"
    and "malloc_packet m" and "malloc_payload m (length value)"
  shows "\<exists>t. recv_payload m c = (None, c\<lparr>in_bytes := drop k value @ rest, answers := []\<rparr>, t) \<and>
    leaks t {#Payload_block#}"
proof -
  have md: "read_metadata (take 16 (in_bytes c)) = \<lparr>mtype = type_code type, mlength = length value\<rparr>"
    using assms type_code_bound [of type]
    by (simp add: packet_bytes_def read_metadata_bytes flip: metadata_size_def)
  have rest: "drop 16 (in_bytes c) = value @ rest" "16 \<le> length (in_bytes c)"
    using assms by (simp_all add: packet_bytes_def flip: metadata_size_def)
  have r1: "c_read metadata_size c = (16, take 16 (in_bytes c), c\<lparr>in_bytes := value @ rest, answers := [Upto k]\<rparr>)"
    using assms(4) rest by (simp add: c_read_def next_answer_def metadata_size_def)
  have r2: "c_read (length value) (c\<lparr>in_bytes := value @ rest, answers := [Upto k]\<rparr>) =
      (int k, take k value, c\<lparr>in_bytes := drop k value @ rest, answers := []\<rparr>)"
    using assms(3) by (simp add: c_read_def next_answer_def)
  show ?thesis
    using assms(3,6,7) md r1 r2 by (auto simp: recv_payload_def leaks_def metadata_size_def Let_def)
qed

text \<open>
  C33: exactly which received packets can be printed safely. For a packet as \<open>recv_payload\<close> returns it,
  \<open>print_payload\<close> stays inside \<open>payload_type_str\<close> and the payload if and only if the type is one of
  the four, a string holds a NUL byte, a number has at least 8 bytes, and a struct has at least 16 with a
  NUL among them. None of this is checked, so a peer chooses whether the program reads out of bounds.
\<close>
theorem print_payload_safe_iff:
  assumes "recv_payload m c = (Some p, c', t)"
  shows "print_payload (mtype (metadata p)) (mlength (metadata p)) (payload p) \<noteq> Crashed \<longleftrightarrow>
    (let bs = (case payload p of None \<Rightarrow> [] | Some bs \<Rightarrow> bs) in
     mtype (metadata p) < 4 \<and>
     (mtype (metadata p) = 0 \<longrightarrow> 0 \<in> set bs) \<and>
     (mtype (metadata p) = 1 \<longrightarrow> 8 \<le> length bs) \<and>
     (mtype (metadata p) = 3 \<longrightarrow> 16 \<le> length bs \<and> 0 \<in> set bs))"
  using assms
proof (cases rule: recv_payload_cases)
  case (3 md)
  consider "mtype md = 0" | "mtype md = 1" | "mtype md = 2" | "mtype md = 3" | "4 \<le> mtype md" by linarith
  then show ?thesis
    by cases (use 3 in \<open>simp_all add: print_payload_crash_iff payload_text_cases del: One_nat_def\<close>)
next
  case (4 md bs)
  have four: "4 * (length bs div 4) \<le> length bs" by simp
  consider "mtype md = 0" | "mtype md = 1" | "mtype md = 2" | "mtype md = 3" | "4 \<le> mtype md" by linarith
  then show ?thesis
    by cases (use 4 four in \<open>simp_all add: print_payload_crash_iff payload_text_cases del: One_nat_def\<close>)
qed simp_all

section \<open>Witnesses\<close>

definition demo_rx :: "u8 list \<Rightarrow> answer list \<Rightarrow> conn" where
  "demo_rx bs as = \<lparr>out_bytes = [], in_bytes = bs, answers = as\<rparr>"

definition all_mallocs :: mallocs where
  "all_mallocs = \<lparr>malloc_packet = True, malloc_payload = (\<lambda>_. True)\<rparr>"

theorem packet_stream_roundtrip_witness:
  "\<exists>rs rx t. recv_all 2 all_mallocs (demo_rx (out_bytes (snd (send_all
      [([0, 0, 0, 0], DEMO_STRING_PAYLOAD, [104, 105, 0]), ([1, 2, 3, 4], DEMO_UINT64_PAYLOAD, [])] (demo_rx [] [])))) []) =
    (rs, rx, t) \<and> rs = [Some (packet_of DEMO_STRING_PAYLOAD [104, 105, 0]), Some (packet_of DEMO_UINT64_PAYLOAD [])] \<and>
    in_bytes rx = [] \<and> balanced t"
proof -
  define ps :: "(u8 list \<times> payload_type \<times> u8 list) list"
    where "ps = [([0, 0, 0, 0], DEMO_STRING_PAYLOAD, [104, 105, 0]), ([1, 2, 3, 4], DEMO_UINT64_PAYLOAD, [])]"
  obtain rets tx where tx: "send_all ps (demo_rx [] []) = (rets, tx)" by fastforce
  obtain rs rx t where rx: "recv_all (length ps) all_mallocs (demo_rx (out_bytes tx) []) = (rs, rx, t)" by (metis prod_cases3)
  have ok: "packets_ok ps" "length ps = 2" by (simp_all add: packets_ok_def ps_def)
  have len: "length rs = 2" using recv_all_length [OF rx] ok(2) by simp
  have conn: "out_bytes (demo_rx [] []) = []" "in_bytes (demo_rx (out_bytes tx) []) = out_bytes tx" by (simp_all add: demo_rx_def)
  note all = packet_stream_roundtrip [OF ok(1) conn(1) tx conn(2) rx refl]
  have "min (length (takeWhile (\<lambda>r. r = 0) rets)) (length (takeWhile (\<lambda>r. r \<noteq> None) rs)) = length ps"
    using all by (auto simp: demo_rx_def all_mallocs_def ps_def)
  with all len ok(2) have "rs = map (\<lambda>(pad, type, value). Some (packet_of type value)) ps" "in_bytes rx = []" "balanced t"
    by simp_all
  then show ?thesis using rx by (intro exI [of _ rs] exI [of _ rx] exI [of _ t]) (simp add: tx flip: ps_def, simp add: ps_def eval_nat_numeral)
qed

theorem recv_payload_result_witness:
  "(\<exists>bs. [1, 2, 3] = bs @ in_bytes (fst (snd (recv_payload all_mallocs (demo_rx [1, 2, 3] [])))))"
proof -
  obtain r c t where "recv_payload all_mallocs (demo_rx [1, 2, 3] []) = (r, c, t)" by (metis prod_cases3)
  from recv_payload_result [OF this] this show ?thesis by (simp add: demo_rx_def)
qed

theorem recv_payload_short_read_witness:
  "\<exists>t. recv_payload all_mallocs (demo_rx (packet_bytes [0, 0, 0, 0] DEMO_STRING_PAYLOAD [104, 105, 0]) [Upto 16, Upto 1]) =
    (None, demo_rx [105, 0] [], t) \<and> leaks t {#Payload_block#}"
  using recv_payload_short_read [of "[0, 0, 0, 0]" "[104, 105, 0]" 1
    "demo_rx (packet_bytes [0, 0, 0, 0] DEMO_STRING_PAYLOAD [104, 105, 0]) [Upto 16, Upto 1]"
    DEMO_STRING_PAYLOAD "[]" all_mallocs]
  by (simp add: demo_rx_def all_mallocs_def)

theorem print_payload_safe_iff_witness:
  "print_payload 3 0 None = Crashed"
proof -
  let ?c = "demo_rx (packet_bytes [0, 0, 0, 0] DEMO_STRUCT_PAYLOAD []) []"
  have "recv_payload all_mallocs ?c = (Some (packet_of DEMO_STRUCT_PAYLOAD []), ?c\<lparr>in_bytes := []\<rparr>, [Acquire Packet_block])"
    using recv_payload_full [of "[0, 0, 0, 0]" "[]" ?c all_mallocs DEMO_STRUCT_PAYLOAD "[]"]
    by (simp add: demo_rx_def all_mallocs_def)
  from print_payload_safe_iff [OF this] show ?thesis by (simp add: packet_of_def)
qed

end
