(* ===== verification/InetSocket.thy ===== *)
theory InetSocket
  imports InetIo
begin

text \<open>
  The internet socket demo above the packet format: \<open>inet_socket.c\<close> (addresses, listening and
  connecting sockets, and the variants that try every result of \<open>getaddrinfo\<close>), \<open>client.c\<close> and
  \<open>server.c\<close>. What the system calls return is given by the record \<open>net\<close>; descriptors, address lists
  and memory are followed by a trace. The locale \<open>address_loop\<close> holds the common contract of the two
  loops over \<open>getaddrinfo\<close>'s results: a round either keeps the socket found, or opens one, or
  leaves nothing behind.
\<close>

datatype resource = Fd int | Addrinfo | Mem block

fun mem_rev :: "block rev \<Rightarrow> resource rev" where
  "mem_rev (Acquire b) = Acquire (Mem b)" | "mem_rev (Release b) = Release (Mem b)"

section \<open>Addresses\<close>

definition AF_INET :: nat where "AF_INET = 2"

record sockaddr_in =
  sin_family :: nat
  sin_port :: u16      \<comment> \<open>in network byte order\<close>
  s_addr :: u32

definition htons :: "u16 \<Rightarrow> u16" where
  "htons p = word_of_nat (unat p div 256 + 256 * (unat p mod 256))"

definition get_af_str :: "int \<Rightarrow> string" where
  \<comment> \<open>\<open>AF_MAX\<close> is 46 in the kernel headers the C library ships\<close>
  "get_af_str af = (if 46 \<le> af then ''invalid address family''
     else if af = 0 then ''not specified'' else if af = 1 then ''UNIX''
     else if af = 2 then ''IPv4'' else if af = 10 then ''IPv6'' else ''unknown address family'')"

definition get_sock_type_str :: "int \<Rightarrow> string" where
  "get_sock_type_str t = (if t = 1 then ''stream'' else if t = 2 then ''data gram'' else ''unknown socket type'')"

definition fill_sockaddr_in :: "(string \<Rightarrow> int \<times> u32) \<Rightarrow> string option \<Rightarrow> u16 \<Rightarrow> int \<times> sockaddr_in" where
  \<comment> \<open>the first argument is \<open>inet_pton (AF_INET, ...)\<close>\<close>
  "fill_sockaddr_in inet_pton ip port =
     (let a = \<lparr>sin_family = AF_INET, sin_port = htons port, s_addr = 0\<rparr> in
      case ip of None \<Rightarrow> (0, a)
      | Some text \<Rightarrow> (case inet_pton text of (ret, addr) \<Rightarrow>
          if ret = 0 then (- 1, a) else if ret \<noteq> 1 then (ret, a) else (0, a\<lparr>s_addr := addr\<rparr>)))"

definition snprintf :: "nat \<Rightarrow> string \<Rightarrow> int \<times> string" where
  \<comment> \<open>return value and what the buffer holds\<close>
  "snprintf buf_len s = (int (length s), if buf_len = 0 then [] else take (buf_len - 1) s)"

definition snprintf_addr :: "(u32 \<Rightarrow> string option) \<Rightarrow> nat \<Rightarrow> sockaddr_in \<Rightarrow> int \<times> string" where
  "snprintf_addr inet_ntop buf_len a =
     (if sin_family a \<noteq> AF_INET then (- EINVAL, [])
      else case inet_ntop (s_addr a) of None \<Rightarrow> (- 1, [])
        | Some host \<Rightarrow> snprintf buf_len (host @ '':'' @ dec_of (unat (htons (sin_port a)))))"

definition snprintf_addr_name :: "(sockaddr_in \<Rightarrow> int \<times> string \<times> string) \<Rightarrow> nat \<Rightarrow> sockaddr_in \<Rightarrow> int \<times> string" where
  "snprintf_addr_name getnameinfo buf_len a =
     (if sin_family a \<noteq> AF_INET then (- EINVAL, [])
      else case getnameinfo a of (ret, host, service) \<Rightarrow>
        if ret \<noteq> 0 then (- 1, []) else snprintf buf_len (host @ '':'' @ service))"

section \<open>Sockets\<close>

record net =
  n_pton :: "string \<Rightarrow> int \<times> u32"
  n_socket :: int
  n_setsockopt :: int
  n_bind :: int
  n_listen :: int
  n_connect :: int
  n_accept :: int

definition inet4_listen :: "net \<Rightarrow> int \<times> resource rev list" where
  "inet4_listen n =
     (let fd = n_socket n in
      if fd = - 1 then (- 1, [])
      else if n_setsockopt n = - 1 then (- 1, [Acquire (Fd fd), Release (Fd fd)])
      else if n_bind n = - 1 then (- 1, [Acquire (Fd fd), Release (Fd fd)])
      else if n_listen n = - 1 then (- 1, [Acquire (Fd fd), Release (Fd fd)])
      else (fd, [Acquire (Fd fd)]))"

definition inet4_connect :: "net \<Rightarrow> int \<times> resource rev list" where
  "inet4_connect n =
     (let fd = n_socket n in
      if fd = - 1 then (- 1, [])
      else if n_connect n = - 1 then (- 1, [Acquire (Fd fd), Release (Fd fd)])
      else (fd, [Acquire (Fd fd)]))"

text \<open>The loops over the addresses that \<open>getaddrinfo\<close> found.\<close>

record address =
  a_socket :: int
  a_setsockopt :: int
  a_bind :: int
  a_connect :: int

definition close_fd :: "int \<Rightarrow> resource rev list" where
  \<comment> \<open>\<open>close (-1)\<close> only fails\<close>
  "close_fd fd = (if fd = - 1 then [] else [Release (Fd fd)])"

definition listen_address :: "int \<Rightarrow> address \<Rightarrow> int \<times> resource rev list" where
  \<comment> \<open>one round; the first argument is \<open>sock_fd\<close>. A failed \<open>setsockopt\<close> falls through to \<open>bind (-1, ...)\<close>,
     which fails\<close>
  "listen_address sock_fd a =
     (if sock_fd \<noteq> - 1 then (sock_fd, [])
      else let fd = a_socket a in
        if fd = - 1 then (- 1, [])
        else let (fd1, t1) = (if a_setsockopt a = - 1 then (- 1, [Acquire (Fd fd)] @ close_fd fd)
                              else (fd, [Acquire (Fd fd)]));
                 ret = (if fd1 = - 1 then - 1 else a_bind a)
             in if ret = - 1 then (- 1, t1 @ close_fd fd1) else (fd1, t1))"

definition connect_address :: "int \<Rightarrow> address \<Rightarrow> int \<times> resource rev list" where
  "connect_address sock_fd a =
     (if sock_fd \<noteq> - 1 then (sock_fd, [])
      else let fd = a_socket a in
        if fd = - 1 then (- 1, [])
        else if a_connect a = - 1 then (- 1, [Acquire (Fd fd)] @ close_fd fd)
        else (fd, [Acquire (Fd fd)]))"

fun address_rounds :: "(int \<Rightarrow> address \<Rightarrow> int \<times> resource rev list) \<Rightarrow> int \<Rightarrow> address list \<Rightarrow>
    int \<times> resource rev list" where
  \<comment> \<open>\<open>for (address = results; address != NULL; address = address->ai_next)\<close>\<close>
  "address_rounds round sock_fd [] = (sock_fd, [])"
| "address_rounds round sock_fd (a # as) = (case round sock_fd a of (fd, t) \<Rightarrow>
     case address_rounds round fd as of (fd', t') \<Rightarrow> (fd', t @ t'))"

definition inet4_listen_str :: "int \<Rightarrow> address list \<Rightarrow> int \<Rightarrow> int \<times> resource rev list" where
  \<comment> \<open>\<open>getaddrinfo\<close>'s return value and results, and what \<open>listen\<close> returns\<close>
  "inet4_listen_str gai results listen_ret =
     (if gai \<noteq> 0 then (gai, [])
      else if results = [] then (- 1, [])
      else case address_rounds listen_address (- 1) results of (sock_fd, t) \<Rightarrow>
        if sock_fd = - 1 then (- 1, [Acquire Addrinfo] @ t @ [Release Addrinfo])
        else if listen_ret = - 1
        then (listen_ret, [Acquire Addrinfo] @ t @ [Release (Fd sock_fd), Release Addrinfo])
        else (sock_fd, [Acquire Addrinfo] @ t @ [Release Addrinfo]))"

definition inet4_connect_str :: "int \<Rightarrow> address list \<Rightarrow> int \<times> resource rev list" where
  "inet4_connect_str gai results =
     (if gai \<noteq> 0 then (gai, [])
      else if results = [] then (- 1, [])
      else case address_rounds connect_address (- 1) results of (sock_fd, t) \<Rightarrow>
        if sock_fd = - 1 then (- 1, [Acquire Addrinfo] @ t @ [Release Addrinfo])
        else (sock_fd, [Acquire Addrinfo] @ t @ [Release Addrinfo]))"

section \<open>The contract of a round\<close>

locale address_loop =
  fixes round :: "int \<Rightarrow> address \<Rightarrow> int \<times> resource rev list" and usable :: "address \<Rightarrow> bool"
  assumes round_taken: "fd \<noteq> - 1 \<Longrightarrow> round fd a = (fd, [])"
    and round_found: "usable a \<Longrightarrow> round (- 1) a = (a_socket a, [Acquire (Fd (a_socket a))])"
    and usable_fd: "usable a \<Longrightarrow> a_socket a \<noteq> - 1"
    and round_not_found: "\<not> usable a \<Longrightarrow> fst (round (- 1) a) = - 1 \<and> balanced (snd (round (- 1) a))"
begin

lemma rounds_taken: "fd \<noteq> - 1 \<Longrightarrow> address_rounds round fd as = (fd, [])"
  by (induction as) (simp_all add: round_taken)

lemma rounds_result:
  "address_rounds round (- 1) as = (fd, t) \<Longrightarrow>
    (case find usable as of
       None \<Rightarrow> fd = - 1 \<and> balanced t
     | Some a \<Rightarrow> fd = a_socket a \<and> fd \<noteq> - 1 \<and> leaks t {#Fd fd#})"
proof (induction as arbitrary: fd t)
  case Nil
  then show ?case by (simp add: balanced_def)
next
  case (Cons a as)
  show ?case
  proof (cases "usable a")
    case True
    then show ?thesis
      using Cons.prems by (auto simp: round_found rounds_taken usable_fd leaks_def)
  next
    case False
    obtain t0 where t0: "round (- 1) a = (- 1, t0)" "balanced t0"
      using round_not_found [OF False] by (cases "round (- 1) a") auto
    obtain t1 where t1: "address_rounds round (- 1) as = (fd, t1)" "t = t0 @ t1"
      using Cons.prems t0 by (auto split: prod.splits)
    from Cons.IH [OF t1(1)] show ?thesis
      using False t0(2) t1(2)
      by (auto simp: trace_eval run_trace_append split: option.splits)
  qed
qed

lemma rounds_frame:
  assumes "address_rounds round (- 1) as = (fd, t)"
  shows "run_trace {#Addrinfo#} t = Some (case find usable as of None \<Rightarrow> {#Addrinfo#} | Some a \<Rightarrow> {#Fd fd, Addrinfo#})"
  using rounds_result [OF assms] run_trace_frame [of "{#}" t _ "{#Addrinfo#}"]
  by (auto simp: trace_eval split: option.splits)

end

definition bindable :: "address \<Rightarrow> bool" where
  "bindable a \<longleftrightarrow> a_socket a \<noteq> - 1 \<and> a_setsockopt a \<noteq> - 1 \<and> a_bind a \<noteq> - 1"

definition connectable :: "address \<Rightarrow> bool" where
  "connectable a \<longleftrightarrow> a_socket a \<noteq> - 1 \<and> a_connect a \<noteq> - 1"

interpretation listening: address_loop listen_address bindable
  by unfold_locales (auto simp: listen_address_def bindable_def close_fd_def balanced_def Let_def)

interpretation connecting: address_loop connect_address connectable
  by unfold_locales (auto simp: connect_address_def connectable_def close_fd_def balanced_def Let_def)

lemma htons_htons [simp]: "htons (htons p) = p"
proof -
  have "unat p < 65536" using unsigned_less [of p] by simp
  then have a: "unat p div 256 < 256" by auto
  define h l where "h = unat p div 256" and "l = unat p mod 256"
  have hl: "h < 256" "l < 256" "unat p = 256 * h + l" using a by (simp_all add: h_def l_def)
  have "unat (htons p) = h + 256 * l"
    unfolding htons_def h_def [symmetric] l_def [symmetric] using hl(1,2) by (simp only: unat_of_nat) simp
  then have "htons (htons p) = word_of_nat (l + 256 * h)"
    using hl by (simp add: htons_def [of "htons p"])
  also have "\<dots> = word_of_nat (unat p)" by (simp only: hl(3) add.commute)
  finally show ?thesis by simp
qed

lemma snprintf_filled:
  assumes "inet_pton ip = (1, addr)" "inet_ntop addr = Some ip" "length (ip @ '':'' @ dec_of (unat port)) < n"
  shows "snprintf_addr inet_ntop n (snd (fill_sockaddr_in inet_pton (Some ip) port)) =
    (int (length (ip @ '':'' @ dec_of (unat port))), ip @ '':'' @ dec_of (unat port))"
  using assms by (simp add: snprintf_addr_def fill_sockaddr_in_def snprintf_def AF_INET_def)

section \<open>Client and server\<close>

record session =
  s_ret :: int
  s_received :: "demo_packet list"
  s_conn :: conn
  s_trace :: "resource rev list"

definition SERVER_IP_0 :: string where "SERVER_IP_0 = ''127.0.0.1''"
definition SERVER_PORT_0 :: u16 where "SERVER_PORT_0 = 55555"

definition string_payload :: "u8 list" where
  "string_payload = map char_byte ''hello world'' @ [0]"
definition uint64_payload :: "u8 list" where
  "uint64_payload = le_bytes 8 0x20250222"
definition array_payload :: "u8 list" where
  "array_payload = le_bytes 4 (2 ^ 31) @ le_bytes 4 0 @ le_bytes 4 (2 ^ 31 - 1)"
definition struct_payload :: "u8 \<Rightarrow> u8 list" where
  \<comment> \<open>the argument is the padding byte after \<open>str_info\<close>\<close>
  "struct_payload pad = map char_byte ''struct'' @ [0, pad] @ le_bytes 8 0xABCDEF0123456789"

text \<open>Receive, print and free one packet; \<open>None\<close> if nothing was received.\<close>

definition recv_and_print :: "mallocs \<Rightarrow> conn \<Rightarrow> (demo_packet option \<times> conn \<times> resource rev list) outcome" where
  "recv_and_print m c = (case recv_payload m c of
     (None, c1, t) \<Rightarrow> Running (None, c1, map mem_rev t)
   | (Some p, c1, t) \<Rightarrow>
       bind_outcome (print_payload (mtype (metadata p)) (mlength (metadata p)) (payload p))
         (\<lambda>_. Running (Some p, c1, map mem_rev (t @ free_packet p))))"

text \<open>
  \<open>run_client_lite\<close>. After a failed connect and after a failed receive it returns \<open>ret\<close> as the last
  successful call left it.
\<close>

definition run_client_lite :: "net \<Rightarrow> mallocs \<Rightarrow> u8 list \<Rightarrow> u8 list \<Rightarrow> string \<Rightarrow> u16 \<Rightarrow> conn \<Rightarrow> session outcome" where
  "run_client_lite n m pad1 pad2 server_ip port c =
     (case fill_sockaddr_in (n_pton n) (Some server_ip) port of (ret, server_addr) \<Rightarrow>
      if ret \<noteq> 0 then Running \<lparr>s_ret = ret, s_received = [], s_conn = c, s_trace = []\<rparr>
      else case inet4_connect n of (sock_fd, t) \<Rightarrow>
      if sock_fd \<le> 0 then Running \<lparr>s_ret = ret, s_received = [], s_conn = c, s_trace = t\<rparr>
      else let out_close = (\<lambda>ret ps c t. Running \<lparr>s_ret = ret, s_received = ps, s_conn = c,
             s_trace = t @ [Release (Fd sock_fd)]\<rparr>) in
      case send_packet pad1 DEMO_STRING_PAYLOAD (length string_payload) string_payload c of (ret, c1) \<Rightarrow>
      if ret \<noteq> 0 then out_close ret [] c1 t
      else case send_packet pad2 DEMO_UINT64_PAYLOAD 8 uint64_payload c1 of (ret, c2) \<Rightarrow>
      if ret \<noteq> 0 then out_close ret [] c2 t
      else bind_outcome (recv_and_print m c2) (\<lambda>(p1, c3, t1).
        case p1 of None \<Rightarrow> out_close ret [] c3 (t @ t1)
        | Some p1 \<Rightarrow> bind_outcome (recv_and_print m c3) (\<lambda>(p2, c4, t2).
            case p2 of None \<Rightarrow> out_close ret [p1] c4 (t @ t1 @ t2)
            | Some p2 \<Rightarrow> out_close ret [p1, p2] c4 (t @ t1 @ t2))))"

definition run_server_lite :: "net \<Rightarrow> mallocs \<Rightarrow> u8 list \<Rightarrow> u8 list \<Rightarrow> u8 \<Rightarrow> string \<Rightarrow> u16 \<Rightarrow> conn \<Rightarrow> session outcome" where
  "run_server_lite n m pad1 pad2 pad3 server_ip port c =
     (case fill_sockaddr_in (n_pton n) (Some server_ip) port of (ret, server_addr) \<Rightarrow>
      if ret \<noteq> 0 then Running \<lparr>s_ret = ret, s_received = [], s_conn = c, s_trace = []\<rparr>
      else case inet4_listen n of (sock_fd, t) \<Rightarrow>
      if sock_fd \<le> 0 then Running \<lparr>s_ret = ret, s_received = [], s_conn = c, s_trace = t\<rparr>
      else let out_close_listen = (\<lambda>ret ps c t. Running \<lparr>s_ret = ret, s_received = ps, s_conn = c,
             s_trace = t @ [Release (Fd sock_fd)]\<rparr>);
           conn_fd = n_accept n in
      if conn_fd = - 1 then out_close_listen conn_fd [] c t
      else let t = t @ [Acquire (Fd conn_fd)];
           out_close_conn = (\<lambda>ret ps c t. out_close_listen ret ps c (t @ [Release (Fd conn_fd)])) in
      bind_outcome (recv_and_print m c) (\<lambda>(p1, c1, t1).
        case p1 of None \<Rightarrow> out_close_conn conn_fd [] c1 (t @ t1)
        | Some p1 \<Rightarrow> bind_outcome (recv_and_print m c1) (\<lambda>(p2, c2, t2).
            case p2 of None \<Rightarrow> out_close_conn conn_fd [p1] c2 (t @ t1 @ t2)
            | Some p2 \<Rightarrow>
                case send_packet pad1 DEMO_INT_ARRAY_PAYLOAD 12 array_payload c2 of (ret, c3) \<Rightarrow>
                if ret \<noteq> 0 then out_close_conn ret [p1, p2] c3 (t @ t1 @ t2)
                else case send_packet pad2 DEMO_STRUCT_PAYLOAD 16 (struct_payload pad3) c3 of (ret, c4) \<Rightarrow>
                out_close_conn ret [p1, p2] c4 (t @ t1 @ t2))))"

section \<open>Lemmas on the session\<close>

definition printable :: "payload_type \<Rightarrow> u8 list \<Rightarrow> bool" where
  "printable type value \<longleftrightarrow> value \<noteq> [] \<and>
     print_payload (type_code type) (length value) (Some value) \<noteq> Crashed"

lemma payload_lengths [simp]:
  "length string_payload = 12" "length uint64_payload = 8" "length array_payload = 12"
  "length (struct_payload pad) = 16"
  by (simp_all add: string_payload_def uint64_payload_def array_payload_def struct_payload_def)

lemma payloads_nul: "0 \<in> set string_payload" "0 \<in> set (struct_payload pad)"
  by (simp_all add: string_payload_def struct_payload_def)

lemma payloads_printable:
  "printable DEMO_STRING_PAYLOAD string_payload" "printable DEMO_UINT64_PAYLOAD uint64_payload"
  "printable DEMO_INT_ARRAY_PAYLOAD array_payload" "printable DEMO_STRUCT_PAYLOAD (struct_payload pad)"
  unfolding printable_def print_payload_crash_iff
  using payload_lengths payloads_nul by (auto simp: payload_text_cases simp del: One_nat_def simp flip: length_0_conv)

lemma run_mem_rev: "run_trace M t = Some N \<Longrightarrow> run_trace (image_mset Mem M) (map mem_rev t) = Some (image_mset Mem N)"
proof (induction M t rule: run_trace.induct)
  case (3 M r es)
  then show ?case by (auto simp: image_mset_Diff split: if_splits)
qed auto

lemma balanced_mem_rev: "balanced t \<Longrightarrow> balanced (map mem_rev t)"
  using run_mem_rev [of "{#}" t "{#}"] by (simp add: balanced_def)

lemma recv_and_print_full:
  assumes "printable type value" and "length pad = 4" "length value < 2 ^ 64" "answers c = []" "malloc_packet m"
    "malloc_payload m (length value)" and "in_bytes c = packet_bytes pad type value @ rest"
  shows "\<exists>t. recv_and_print m c = Running (Some (packet_of type value), c\<lparr>in_bytes := rest\<rparr>, t) \<and> balanced t"
proof -
  have ne: "value \<noteq> []" using assms(1) by (simp add: printable_def)
  obtain out where pr: "print_payload (type_code type) (length value) (Some value) = Running out"
    using assms(1) print_payload_runs unfolding printable_def by blast
  have "balanced (map mem_rev [Acquire Packet_block, Acquire Payload_block, Release Payload_block, Release Packet_block])"
    by (rule balanced_mem_rev) (simp add: balanced_def)
  then show ?thesis
    using recv_payload_full [OF assms(2-7)] ne pr
    by (simp add: recv_and_print_def packet_of_def free_packet_def)
qed

definition net_up :: "net \<Rightarrow> bool" where
  "net_up n \<longleftrightarrow> fst (n_pton n SERVER_IP_0) = 1 \<and> 0 < n_socket n \<and> n_setsockopt n \<noteq> - 1 \<and> n_bind n \<noteq> - 1 \<and>
     n_listen n \<noteq> - 1 \<and> n_connect n \<noteq> - 1 \<and> n_accept n \<noteq> - 1"

definition mem_up :: "mallocs \<Rightarrow> bool" where
  "mem_up m \<longleftrightarrow> malloc_packet m \<and> (\<forall>n \<le> 16. malloc_payload m n)"

lemma fill_ok: "fst (pton ip) = 1 \<Longrightarrow> \<exists>a. fill_sockaddr_in pton (Some ip) port = (0, a)"
  by (cases "pton ip") (simp add: fill_sockaddr_in_def)

lemma recv_two:
  assumes "printable ty1 v1" "printable ty2 v2" "length p1 = 4" "length p2 = 4" "length v1 \<le> 16" "length v2 \<le> 16"
    and "answers c = []" "mem_up m" "in_bytes c = packet_bytes p1 ty1 v1 @ packet_bytes p2 ty2 v2"
  obtains t1 t2 where "recv_and_print m c = Running (Some (packet_of ty1 v1), c\<lparr>in_bytes := packet_bytes p2 ty2 v2\<rparr>, t1)"
    "recv_and_print m (c\<lparr>in_bytes := packet_bytes p2 ty2 v2\<rparr>) = Running (Some (packet_of ty2 v2), c\<lparr>in_bytes := []\<rparr>, t2)"
    "balanced t1" "balanced t2"
proof -
  have "\<exists>t. recv_and_print m c = Running (Some (packet_of ty1 v1), c\<lparr>in_bytes := packet_bytes p2 ty2 v2\<rparr>, t) \<and> balanced t"
    using assms by (intro recv_and_print_full [of _ _ p1]) (auto simp: mem_up_def)
  moreover have "\<exists>t. recv_and_print m (c\<lparr>in_bytes := packet_bytes p2 ty2 v2\<rparr>) =
      Running (Some (packet_of ty2 v2), (c\<lparr>in_bytes := packet_bytes p2 ty2 v2\<rparr>)\<lparr>in_bytes := []\<rparr>, t) \<and> balanced t"
    using assms by (intro recv_and_print_full [of _ _ p2]) (auto simp: mem_up_def)
  ultimately show thesis using that by auto
qed

lemma balanced_wrap: "balanced t \<Longrightarrow> balanced ([Acquire r] @ t @ [Release r])"
  using balanced_bracket [of t r] by simp

lemma client_full:
  assumes "net_up n" "mem_up m" "length pad1 = 4" "length pad2 = 4" "length p3 = 4" "length p4 = 4"
    and "in_bytes c = packet_bytes p3 DEMO_INT_ARRAY_PAYLOAD array_payload @
      packet_bytes p4 DEMO_STRUCT_PAYLOAD (struct_payload p5)" and "answers c = []"
  shows "\<exists>cs. run_client_lite n m pad1 pad2 SERVER_IP_0 SERVER_PORT_0 c = Running cs \<and> s_ret cs = 0 \<and>
    s_received cs = [packet_of DEMO_INT_ARRAY_PAYLOAD array_payload,
      packet_of DEMO_STRUCT_PAYLOAD (struct_payload p5)] \<and>
    s_conn cs = c\<lparr>in_bytes := [], out_bytes := out_bytes c @ packet_bytes pad1 DEMO_STRING_PAYLOAD string_payload @
      packet_bytes pad2 DEMO_UINT64_PAYLOAD uint64_payload\<rparr> \<and> balanced (s_trace cs)"
proof -
  let ?c1 = "c\<lparr>out_bytes := out_bytes c @ packet_bytes pad1 DEMO_STRING_PAYLOAD string_payload\<rparr>"
  let ?c2 = "?c1\<lparr>out_bytes := out_bytes ?c1 @ packet_bytes pad2 DEMO_UINT64_PAYLOAD uint64_payload\<rparr>"
  obtain a where a: "fill_sockaddr_in (n_pton n) (Some SERVER_IP_0) SERVER_PORT_0 = (0, a)"
    using assms(1) fill_ok unfolding net_up_def by blast
  have con: "inet4_connect n = (n_socket n, [Acquire (Fd (n_socket n))])" "\<not> n_socket n \<le> 0"
    using assms(1) by (auto simp: net_up_def inet4_connect_def Let_def)
  have s1: "send_packet pad1 DEMO_STRING_PAYLOAD 12 string_payload c = (0, ?c1)"
    and s2: "send_packet pad2 DEMO_UINT64_PAYLOAD 8 uint64_payload ?c1 = (0, ?c2)"
    using assms send_packet_full [of pad1 c _ string_payload] send_packet_full [of pad2 ?c1 _ uint64_payload]
    by simp_all
  obtain t1 t2 where r:
    "recv_and_print m ?c2 = Running (Some (packet_of DEMO_INT_ARRAY_PAYLOAD array_payload),
      ?c2\<lparr>in_bytes := packet_bytes p4 DEMO_STRUCT_PAYLOAD (struct_payload p5)\<rparr>, t1)"
    "recv_and_print m (?c2\<lparr>in_bytes := packet_bytes p4 DEMO_STRUCT_PAYLOAD (struct_payload p5)\<rparr>) =
      Running (Some (packet_of DEMO_STRUCT_PAYLOAD (struct_payload p5)), ?c2\<lparr>in_bytes := []\<rparr>, t2)"
    "balanced t1" "balanced t2"
    using assms payloads_printable by (elim recv_two [rotated -1]) simp_all
  have "balanced ([Acquire (Fd (n_socket n))] @ (t1 @ t2) @ [Release (Fd (n_socket n))])"
    using r(3,4) by (intro balanced_wrap balanced_append)
  then show ?thesis
    using a con s1 s2 r(1,2) by (simp add: run_client_lite_def)
qed

lemma server_full:
  assumes "net_up n" "mem_up m" "length pad1 = 4" "length pad2 = 4" "length p3 = 4" "length p4 = 4"
    and "in_bytes c = packet_bytes p3 DEMO_STRING_PAYLOAD string_payload @
      packet_bytes p4 DEMO_UINT64_PAYLOAD uint64_payload" and "answers c = []"
  shows "\<exists>ss. run_server_lite n m pad1 pad2 p5 SERVER_IP_0 SERVER_PORT_0 c = Running ss \<and> s_ret ss = 0 \<and>
    s_received ss = [packet_of DEMO_STRING_PAYLOAD string_payload, packet_of DEMO_UINT64_PAYLOAD uint64_payload] \<and>
    s_conn ss = c\<lparr>in_bytes := [], out_bytes := out_bytes c @ packet_bytes pad1 DEMO_INT_ARRAY_PAYLOAD array_payload @
      packet_bytes pad2 DEMO_STRUCT_PAYLOAD (struct_payload p5)\<rparr> \<and> balanced (s_trace ss)"
proof -
  obtain a where a: "fill_sockaddr_in (n_pton n) (Some SERVER_IP_0) SERVER_PORT_0 = (0, a)"
    using assms(1) fill_ok unfolding net_up_def by blast
  have con: "inet4_listen n = (n_socket n, [Acquire (Fd (n_socket n))])" "\<not> n_socket n \<le> 0" "n_accept n \<noteq> - 1"
    using assms(1) by (auto simp: net_up_def inet4_listen_def Let_def)
  obtain t1 t2 where r:
    "recv_and_print m c = Running (Some (packet_of DEMO_STRING_PAYLOAD string_payload),
      c\<lparr>in_bytes := packet_bytes p4 DEMO_UINT64_PAYLOAD uint64_payload\<rparr>, t1)"
    "recv_and_print m (c\<lparr>in_bytes := packet_bytes p4 DEMO_UINT64_PAYLOAD uint64_payload\<rparr>) =
      Running (Some (packet_of DEMO_UINT64_PAYLOAD uint64_payload), c\<lparr>in_bytes := []\<rparr>, t2)"
    "balanced t1" "balanced t2"
    using assms payloads_printable by (elim recv_two [rotated -1]) simp_all
  let ?c1 = "c\<lparr>in_bytes := []\<rparr>"
  let ?c2 = "?c1\<lparr>out_bytes := out_bytes ?c1 @ packet_bytes pad1 DEMO_INT_ARRAY_PAYLOAD array_payload\<rparr>"
  have s1: "send_packet pad1 DEMO_INT_ARRAY_PAYLOAD 12 array_payload ?c1 = (0, ?c2)"
    and s2: "send_packet pad2 DEMO_STRUCT_PAYLOAD 16 (struct_payload p5) ?c2 =
      (0, ?c2\<lparr>out_bytes := out_bytes ?c2 @ packet_bytes pad2 DEMO_STRUCT_PAYLOAD (struct_payload p5)\<rparr>)"
    using assms send_packet_full [of pad1 ?c1 _ array_payload] send_packet_full [of pad2 ?c2 _ "struct_payload p5"]
    by simp_all
  have "balanced ([Acquire (Fd (n_socket n))] @ ([Acquire (Fd (n_accept n))] @ (t1 @ t2) @ [Release (Fd (n_accept n))]) @
      [Release (Fd (n_socket n))])"
    using r(3,4) by (intro balanced_wrap balanced_append)
  then show ?thesis
    using a con s1 s2 r(1,2) by (simp add: run_server_lite_def Let_def)
qed

section \<open>Properties\<close>

text \<open>
  C19: client and server understand each other. When all calls succeed, there are byte streams, one for
  each direction, such that the client reading the server's stream writes the client's, and the server
  reading the client's stream writes the server's; the server receives exactly the string and the
  number, the client exactly the integer array and the struct, all of them can be printed, both
  functions return 0, both streams are used up, and every descriptor and allocation is released.
\<close>
theorem inet_session:
  assumes "net_up nc" "mem_up mc" "net_up ns" "mem_up ms"
    and "length p1 = 4" "length p2 = 4" "length p3 = 4" "length p4 = 4"
  shows "\<exists>cbytes sbytes cs ss.
    run_client_lite nc mc p1 p2 SERVER_IP_0 SERVER_PORT_0 \<lparr>out_bytes = [], in_bytes = sbytes, answers = []\<rparr> = Running cs \<and>
    run_server_lite ns ms p3 p4 p5 SERVER_IP_0 SERVER_PORT_0 \<lparr>out_bytes = [], in_bytes = cbytes, answers = []\<rparr> = Running ss \<and>
    s_conn cs = \<lparr>out_bytes = cbytes, in_bytes = [], answers = []\<rparr> \<and>
    s_conn ss = \<lparr>out_bytes = sbytes, in_bytes = [], answers = []\<rparr> \<and>
    s_received ss = [packet_of DEMO_STRING_PAYLOAD string_payload, packet_of DEMO_UINT64_PAYLOAD uint64_payload] \<and>
    s_received cs = [packet_of DEMO_INT_ARRAY_PAYLOAD array_payload, packet_of DEMO_STRUCT_PAYLOAD (struct_payload p5)] \<and>
    s_ret cs = 0 \<and> s_ret ss = 0 \<and> balanced (s_trace cs) \<and> balanced (s_trace ss)"
proof -
  let ?cb = "packet_bytes p1 DEMO_STRING_PAYLOAD string_payload @ packet_bytes p2 DEMO_UINT64_PAYLOAD uint64_payload"
  let ?sb = "packet_bytes p3 DEMO_INT_ARRAY_PAYLOAD array_payload @ packet_bytes p4 DEMO_STRUCT_PAYLOAD (struct_payload p5)"
  show ?thesis
    using client_full [OF assms(1,2,5-8), of "\<lparr>out_bytes = [], in_bytes = ?sb, answers = []\<rparr>" p5]
      server_full [OF assms(3,4,7,8,5,6), of "\<lparr>out_bytes = [], in_bytes = ?cb, answers = []\<rparr>" p5]
    by (intro exI [of _ ?cb] exI [of _ ?sb]) auto
qed

text \<open>
  a client that could not connect reports success. When the address is valid but no socket can be
  created or the connection is refused, nothing is sent or received and yet the return value is
  0, left over from filling in the address; likewise the server when it cannot listen.
\<close>
theorem inet_failure_returns_zero:
  assumes "fst (n_pton n SERVER_IP_0) = 1" and "n_socket n = - 1 \<or> n_connect n = - 1 \<and> n_bind n = - 1"
  shows "(\<exists>cs. run_client_lite n m p1 p2 SERVER_IP_0 SERVER_PORT_0 c = Running cs \<and>
      s_ret cs = 0 \<and> s_received cs = [] \<and> s_conn cs = c \<and> balanced (s_trace cs)) \<and>
    (\<exists>ss. run_server_lite n m p1 p2 p3 SERVER_IP_0 SERVER_PORT_0 c = Running ss \<and>
      s_ret ss = 0 \<and> s_received ss = [] \<and> s_conn ss = c \<and> balanced (s_trace ss))"
proof -
  obtain a where a: "fill_sockaddr_in (n_pton n) (Some SERVER_IP_0) SERVER_PORT_0 = (0, a)"
    using assms(1) fill_ok by blast
  have "\<exists>tc. inet4_connect n = (- 1, tc) \<and> balanced tc" "\<exists>ts. inet4_listen n = (- 1, ts) \<and> balanced ts"
    using assms(2) by (cases "n_socket n = - 1"; auto simp: inet4_connect_def inet4_listen_def balanced_def Let_def)+
  then obtain tc ts where tc: "inet4_connect n = (- 1, tc)" "balanced tc"
    and ts: "inet4_listen n = (- 1, ts)" "balanced ts" by blast
  show ?thesis
    using a tc ts by (simp add: run_client_lite_def run_server_lite_def)
qed

text \<open>
  C20: trying every address. \<open>inet4_listen_str\<close> returns the socket of the first address on which socket,
  option and bind succeed, and \<open>inet4_connect_str\<close> the one of the first that can be connected; on
  success that socket is the only thing still held, on failure nothing is, and the list of
  \<open>getaddrinfo\<close> is freed in both cases.
\<close>
theorem inet_str_first_usable:
  assumes "results \<noteq> []"
  shows "(case find bindable results of
      None \<Rightarrow> fst (inet4_listen_str 0 results l) = - 1 \<and> balanced (snd (inet4_listen_str 0 results l))
    | Some a \<Rightarrow>
        if l = - 1 then fst (inet4_listen_str 0 results l) = - 1 \<and> balanced (snd (inet4_listen_str 0 results l))
        else fst (inet4_listen_str 0 results l) = a_socket a \<and>
          leaks (snd (inet4_listen_str 0 results l)) {#Fd (a_socket a)#}) \<and>
    (case find connectable results of
      None \<Rightarrow> fst (inet4_connect_str 0 results) = - 1 \<and> balanced (snd (inet4_connect_str 0 results))
    | Some a \<Rightarrow> fst (inet4_connect_str 0 results) = a_socket a \<and>
          leaks (snd (inet4_connect_str 0 results)) {#Fd (a_socket a)#})"
proof -
  obtain fd t where l: "address_rounds listen_address (- 1) results = (fd, t)" by fastforce
  obtain fd' t' where c: "address_rounds connect_address (- 1) results = (fd', t')" by fastforce
  show ?thesis
    using assms l c listening.rounds_result [OF l] listening.rounds_frame [OF l]
      connecting.rounds_result [OF c] connecting.rounds_frame [OF c]
    by (auto simp: inet4_listen_str_def inet4_connect_str_def trace_eval run_trace_append
        split: option.splits)
qed

section \<open>Witnesses\<close>

definition demo_net :: net where
  "demo_net = \<lparr>n_pton = (\<lambda>_. (1, 0x0100007F)), n_socket = 3, n_setsockopt = 0, n_bind = 0, n_listen = 0,
     n_connect = 0, n_accept = 4\<rparr>"

theorem inet_session_witness:
  "\<exists>sbytes cs. run_client_lite demo_net all_mallocs [0, 0, 0, 0] [0, 0, 0, 0] SERVER_IP_0 SERVER_PORT_0
      \<lparr>out_bytes = [], in_bytes = sbytes, answers = []\<rparr> = Running cs \<and> s_ret cs = 0"
proof -
  have "net_up demo_net" "mem_up all_mallocs"
    by (simp_all add: net_up_def mem_up_def demo_net_def all_mallocs_def)
  from inet_session [OF this this, of "[0, 0, 0, 0]" "[0, 0, 0, 0]" "[0, 0, 0, 0]" "[0, 0, 0, 0]"]
  show ?thesis by simp blast
qed

theorem inet_failure_returns_zero_witness:
  "\<exists>cs. run_client_lite (demo_net\<lparr>n_socket := - 1\<rparr>) all_mallocs [] [] SERVER_IP_0 SERVER_PORT_0 (demo_rx [] []) =
    Running cs \<and> s_ret cs = 0"
  using inet_failure_returns_zero [of "demo_net\<lparr>n_socket := - 1\<rparr>" all_mallocs "[]" "[]" "demo_rx [] []"]
  by (auto simp: demo_net_def)

theorem inet_str_first_usable_witness:
  "fst (inet4_listen_str 0 [\<lparr>a_socket = 5, a_setsockopt = - 1, a_bind = 0, a_connect = 0\<rparr>,
      \<lparr>a_socket = 6, a_setsockopt = 0, a_bind = 0, a_connect = 0\<rparr>] 0) = 6"
  using inet_str_first_usable [of "[\<lparr>a_socket = 5, a_setsockopt = - 1, a_bind = 0, a_connect = 0\<rparr>,
      \<lparr>a_socket = 6, a_setsockopt = 0, a_bind = 0, a_connect = 0\<rparr>]" 0]
  by (simp add: bindable_def)

end
