(* ===== verification/Genl.thy ===== *)
theory Genl
  imports Machine
begin

text \<open>
  The generic netlink demo \<open>kernel-module/netlink-generic\<close>: \<open>reporter.c\<close> sends an event with a type
  and a time stamp, the kernel module \<open>genl_demo.c\<close> gives it a number and multicasts a notification, and
  \<open>listener.c\<close> decodes it. The message functions of the kernel and of libnl (\<open>genlmsg_new\<close>,
  \<open>nla_put\<close>, ...) are the argument \<open>nl_ops\<close>; what netlink promises about room and attributes is the
  hypothesis \<open>nl_contract\<close>. A message is seen as its list of attributes, type and data.
\<close>

section \<open>Interface of the message functions\<close>

type_synonym attr_list = "(nat \<times> u8 list) list"

record 's nl_ops =
  nla_total_size :: "nat \<Rightarrow> nat"
  genlmsg_new :: "nat \<Rightarrow> 's option"
  genlmsg_put :: "'s \<Rightarrow> 's option"
  nla_put :: "'s \<Rightarrow> nat \<Rightarrow> u8 list \<Rightarrow> 's option"
  nla_put_64bit :: "'s \<Rightarrow> nat \<Rightarrow> u8 list \<Rightarrow> nat \<Rightarrow> 's option"
    \<comment> \<open>puts an empty attribute of the last argument's type first where the data would be misaligned\<close>

text \<open>
  \<open>room\<close> is the space left in the buffer, \<open>attrs\<close> the attributes written, \<open>misaligned\<close> whether a
  64-bit value needs padding next. An attribute takes a four-byte header and its data, rounded up to
  four; it is written exactly if it fits; a new message has at least the room that was asked for.
\<close>

definition nl_contract :: "'s nl_ops \<Rightarrow> ('s \<Rightarrow> nat) \<Rightarrow> ('s \<Rightarrow> attr_list) \<Rightarrow> ('s \<Rightarrow> bool) \<Rightarrow> bool" where
  "nl_contract ops room attrs misaligned \<longleftrightarrow>
     (\<forall>n. nla_total_size ops n = 4 * ((n + 7) div 4)) \<and>
     (\<forall>n s s'. genlmsg_new ops n = Some s \<longrightarrow> genlmsg_put ops s = Some s' \<longrightarrow> n \<le> room s' \<and> attrs s' = []) \<and>
     (\<forall>s t d. case nla_put ops s t d of
        None \<Rightarrow> room s < nla_total_size ops (length d)
      | Some s' \<Rightarrow> nla_total_size ops (length d) \<le> room s \<and>
          room s' = room s - nla_total_size ops (length d) \<and> attrs s' = attrs s @ [(t, d)]) \<and>
     (\<forall>s t d p. let pad = (if misaligned s then [(p, [])] else []);
                    need = nla_total_size ops (length d) + (if misaligned s then nla_total_size ops 0 else 0) in
        case nla_put_64bit ops s t d p of
          None \<Rightarrow> room s < need
        | Some s' \<Rightarrow> need \<le> room s \<and> room s' = room s - need \<and> attrs s' = attrs s @ pad @ [(t, d)])"

section \<open>genl_demo_uapi.h\<close>

definition DEMO_MAX_STR_LEN :: nat where "DEMO_MAX_STR_LEN = 63"
definition DEMO_GENL_API_VERSION :: nat where "DEMO_GENL_API_VERSION = 1"
definition DEMO_U_CMD_EVENT_REPORT :: nat where "DEMO_U_CMD_EVENT_REPORT = 1"
definition DEMO_U_ATTR_EVENT_TYPE :: nat where "DEMO_U_ATTR_EVENT_TYPE = 1"
definition DEMO_U_ATTR_TIMESTAMP :: nat where "DEMO_U_ATTR_TIMESTAMP = 2"
definition DEMO_K_ATTR_PAD :: nat where "DEMO_K_ATTR_PAD = 1"
definition DEMO_K_ATTR_EVENT_ID :: nat where "DEMO_K_ATTR_EVENT_ID = 2"
definition DEMO_K_ATTR_EVENT_TYPE :: nat where "DEMO_K_ATTR_EVENT_TYPE = 3"
definition DEMO_K_ATTR_TIMESTAMP :: nat where "DEMO_K_ATTR_TIMESTAMP = 4"
definition DEMO_K_ATTR_COMPONENT :: nat where "DEMO_K_ATTR_COMPONENT = 5"

lemmas attr_numbers = DEMO_U_ATTR_EVENT_TYPE_def DEMO_U_ATTR_TIMESTAMP_def DEMO_K_ATTR_PAD_def
  DEMO_K_ATTR_EVENT_ID_def DEMO_K_ATTR_EVENT_TYPE_def DEMO_K_ATTR_TIMESTAMP_def DEMO_K_ATTR_COMPONENT_def

section \<open>The kernel module\<close>

definition u32_bytes :: "u32 \<Rightarrow> u8 list" where "u32_bytes v = le_bytes 4 (unat v)"
definition u64_bytes :: "u64 \<Rightarrow> u8 list" where "u64_bytes v = le_bytes 8 (unat v)"
definition nla_get_u32 :: "u8 list \<Rightarrow> u32" where "nla_get_u32 d = word_of_nat (le_val (take 4 d))"
definition nla_get_u64 :: "u8 list \<Rightarrow> u64" where "nla_get_u64 d = word_of_nat (le_val (take 8 d))"

definition demo_nla_put_str :: "'s nl_ops \<Rightarrow> 's \<Rightarrow> nat \<Rightarrow> string \<Rightarrow> nat \<Rightarrow> 's option" where
  "demo_nla_put_str ops skb attrtype str len =
     nla_put ops skb attrtype (map char_byte (take len str) @ [0])"

datatype 's notified = Not_built | Skb_leaked | Multicast 's

text \<open>\<open>demo_event_notify\<close>; the four \<open>nla_put\<close> are joined by \<open>||\<close>, so the first failure skips the rest.\<close>

definition demo_event_notify :: "'s nl_ops \<Rightarrow> u32 \<Rightarrow> u32 \<Rightarrow> u64 \<Rightarrow> string \<Rightarrow> 's notified" where
  "demo_event_notify ops event_id event_type timestamp component =
     (let header_size = 0;
          component_str_len = min (length component) DEMO_MAX_STR_LEN;
          attrs_size = nla_total_size ops 4 + nla_total_size ops 8 + nla_total_size ops (component_str_len + 1) in
      case genlmsg_new ops (header_size + attrs_size) of
        None \<Rightarrow> Not_built
      | Some skb \<Rightarrow>
      (case genlmsg_put ops skb of
        None \<Rightarrow> Skb_leaked
      | Some skb \<Rightarrow>
      (case nla_put ops skb DEMO_K_ATTR_EVENT_ID (u32_bytes event_id) of
        None \<Rightarrow> Skb_leaked
      | Some skb \<Rightarrow>
      (case nla_put ops skb DEMO_K_ATTR_EVENT_TYPE (u32_bytes event_type) of
        None \<Rightarrow> Skb_leaked
      | Some skb \<Rightarrow>
      (case nla_put_64bit ops skb DEMO_K_ATTR_TIMESTAMP (u64_bytes timestamp) DEMO_K_ATTR_PAD of
        None \<Rightarrow> Skb_leaked
      | Some skb \<Rightarrow>
      (case demo_nla_put_str ops skb DEMO_K_ATTR_COMPONENT component component_str_len of
        None \<Rightarrow> Skb_leaked
      | Some skb \<Rightarrow> Multicast skb))))))"

definition demo_event_report ::
  "'s nl_ops \<Rightarrow> (nat \<Rightarrow> u8 list option) \<Rightarrow> u32 \<Rightarrow> u32 \<Rightarrow> int \<times> u32 \<times> 's notified option" where
  \<comment> \<open>\<open>info->attrs\<close>, \<open>info->snd_portid\<close> and \<open>g_event_id\<close>; returns the status, the new \<open>g_event_id\<close> and
     what became of the notification\<close>
  "demo_event_report ops info_attrs snd_portid g_event_id =
     (case info_attrs DEMO_U_ATTR_EVENT_TYPE of
        None \<Rightarrow> (- EINVAL, g_event_id, None)
      | Some ty \<Rightarrow>
     (case info_attrs DEMO_U_ATTR_TIMESTAMP of
        None \<Rightarrow> (- EINVAL, g_event_id, None)
      | Some ts \<Rightarrow>
        let component = take DEMO_MAX_STR_LEN (''port-'' @ dec_of (unat snd_portid)) in
        (0, g_event_id + 1,
         Some (demo_event_notify ops g_event_id (nla_get_u32 ty) (nla_get_u64 ts) component))))"

text \<open>\<open>demo_genl_ops\<close>: the policy has an entry for each type up to \<open>DEMO_U_ATTR_TIMESTAMP\<close>, and
  \<open>maxattr\<close> is its \<open>ARRAY_SIZE\<close>.\<close>

datatype nla_kind = NLA_UNSPEC | NLA_U32 | NLA_U64 | NLA_BINARY | NLA_NUL_STRING

definition demo_report_attr_policy :: "nla_kind list" where
  "demo_report_attr_policy = [NLA_UNSPEC, NLA_U32, NLA_U64]"

definition demo_genl_maxattr :: nat where
  "demo_genl_maxattr = length demo_report_attr_policy"

definition demo_genl_init :: "int \<Rightarrow> u32 \<Rightarrow> int \<times> u32" where
  \<comment> \<open>what \<open>genl_register_family\<close> returns, and \<open>g_event_id\<close>\<close>
  "demo_genl_init registered g_event_id = (if registered < 0 then (registered, g_event_id) else (0, 1))"

section \<open>The reporter\<close>

record 's reporter_env =
  clock :: "(u64 \<times> u64) option"   \<comment> \<open>\<open>clock_gettime\<close>: seconds and nanoseconds\<close>
  sock_alloc :: bool
  sock_connect :: int
  resolve :: int
  msg_alloc :: "'s option"        \<comment> \<open>\<open>nlmsg_alloc\<close>, after \<open>genlmsg_put\<close>\<close>
  send_auto :: int

definition get_time_us :: "(u64 \<times> u64) option \<Rightarrow> u64 outcome" where
  "get_time_us c = (case c of None \<Rightarrow> Exited (- 1) | Some (sec, nsec) \<Rightarrow> Running (sec * 1000000 + nsec div 1000))"

definition init_genl_ctx :: "'s reporter_env \<Rightarrow> nat outcome" where
  \<comment> \<open>the family id\<close>
  "init_genl_ctx e =
     (if \<not> sock_alloc e then Exited (- ENOMEM)
      else if sock_connect e < 0 then Exited (sock_connect e)
      else if resolve e < 0 then Exited (resolve e)
      else Running (nat (resolve e)))"

definition put_or_keep :: "'s \<Rightarrow> 's option \<Rightarrow> 's" where
  \<comment> \<open>the result of \<open>nla_put\<close> is ignored\<close>
  "put_or_keep s r = (case r of None \<Rightarrow> s | Some s' \<Rightarrow> s')"

definition report_event :: "'s nl_ops \<Rightarrow> 's reporter_env \<Rightarrow> u32 \<Rightarrow> 's outcome" where
  \<comment> \<open>the message that was sent\<close>
  "report_event ops e event_type =
     bind_outcome (get_time_us (clock e)) (\<lambda>report_time.
       case msg_alloc e of None \<Rightarrow> Exited (- 1)
       | Some m \<Rightarrow>
           let m1 = put_or_keep m (nla_put ops m DEMO_U_ATTR_EVENT_TYPE (u32_bytes event_type));
               m2 = put_or_keep m1 (nla_put ops m1 DEMO_U_ATTR_TIMESTAMP (u64_bytes report_time))
           in if send_auto e < 0 then Exited (send_auto e) else Running m2)"

definition reporter_main :: "'s nl_ops \<Rightarrow> 's reporter_env \<Rightarrow> string list \<Rightarrow> (int \<times> 's option) outcome" where
  \<comment> \<open>the exit status and the message sent; \<open>argv\<close> includes the program's name\<close>
  "reporter_main ops e argv =
     (if length argv \<noteq> 2 then Running (- EINVAL, None)
      else bind_outcome (init_genl_ctx e) (\<lambda>_.
        bind_outcome (report_event ops e (word_of_int (c_atoi (argv ! 1)))) (\<lambda>m. Running (0, Some m))))"

section \<open>The listener\<close>

record event_info =
  event_id :: u32
  event_type :: u32
  event_time :: u64
  receive_time :: u64
  component :: "string option"

definition no_event :: event_info where
  "no_event = \<lparr>event_id = 0, event_type = 0, event_time = 0, receive_time = 0, component = None\<rparr>"

record listener =
  info :: event_info
  lost_strings :: nat      \<comment> \<open>strings of \<open>nla_strdup\<close> that nothing refers to any more\<close>

definition clear_event_info :: "listener \<Rightarrow> listener" where
  "clear_event_info l = l\<lparr>info := no_event\<rparr>"

text \<open>A message as the callback sees it: what \<open>genlmsg_parse\<close> returns and the attribute table it fills,
  whether \<open>nla_strdup\<close> finds memory, and the clock.\<close>

record nl_msg =
  parse_ret :: int
  attr_table :: "nat \<Rightarrow> u8 list option"
  strdup_ok :: bool
  msg_clock :: "(u64 \<times> u64) option"

definition event_callback :: "nl_msg \<Rightarrow> listener \<Rightarrow> (int \<times> listener) outcome" where
  "event_callback m l =
     (if parse_ret m < 0 then Running (parse_ret m, l)
      else case (attr_table m DEMO_K_ATTR_EVENT_ID, attr_table m DEMO_K_ATTR_EVENT_TYPE,
                 attr_table m DEMO_K_ATTR_TIMESTAMP, attr_table m DEMO_K_ATTR_COMPONENT) of
        (Some i, Some t, Some s, Some c) \<Rightarrow>
          let l1 = l\<lparr>info := (info l)\<lparr>event_id := nla_get_u32 i, event_type := nla_get_u32 t,
                event_time := nla_get_u64 s,
                component := (if strdup_ok m then Some (c_str (map byte_char c)) else None)\<rparr>,
                lost_strings := lost_strings l + (if component (info l) = None then 0 else 1)\<rparr>
          in if \<not> strdup_ok m then Running (- ENOMEM, l1)
             else bind_outcome (get_time_us (msg_clock m)) (\<lambda>t. Running (0, l1\<lparr>info := (info l1)\<lparr>receive_time := t\<rparr>\<rparr>))
      | _ \<Rightarrow> Crashed)"

text \<open>\<open>nl_recvmsgs\<close>: an error, or the callback on every message of the datagram until one returns an error.\<close>

fun run_callbacks :: "nl_msg list \<Rightarrow> listener \<Rightarrow> (int \<times> listener) outcome" where
  "run_callbacks [] l = Running (0, l)"
| "run_callbacks (m # ms) l = bind_outcome (event_callback m l) (\<lambda>(ret, l1).
     if ret < 0 then Running (ret, l1) else run_callbacks ms l1)"

definition nl_recvmsgs :: "int + nl_msg list \<Rightarrow> listener \<Rightarrow> (int \<times> listener) outcome" where
  "nl_recvmsgs d l = (case d of Inl err \<Rightarrow> Running (err, l) | Inr ms \<Rightarrow> run_callbacks ms l)"

datatype monitor_end = Finished | Waiting

fun monitor_loop :: "int \<Rightarrow> int \<Rightarrow> (int + nl_msg list) list \<Rightarrow> listener \<Rightarrow>
    (event_info list \<times> monitor_end \<times> listener) outcome" where
  \<comment> \<open>\<open>num_events\<close>, \<open>count\<close>, what the calls of \<open>nl_recvmsgs\<close> will deliver; the events printed.
     With nothing left to deliver the loop waits.\<close>
  "monitor_loop num_events cnt [] l =
     (if cnt + 1 \<le> num_events \<or> num_events = - 1 then Running ([], Waiting, l) else Running ([], Finished, l))"
| "monitor_loop num_events cnt (d # ds) l =
     (if cnt + 1 \<le> num_events \<or> num_events = - 1 then
        bind_outcome (nl_recvmsgs d l) (\<lambda>(ret, l1).
          if ret < 0 then Exited ret
          else bind_outcome (monitor_loop num_events (cnt + 1) ds (clear_event_info l1))
            (\<lambda>(es, r, l2). Running (info l1 # es, r, l2)))
      else Running ([], Finished, l))"

definition monitor_events :: "int \<Rightarrow> (int + nl_msg list) list \<Rightarrow> (event_info list \<times> monitor_end \<times> listener) outcome" where
  "monitor_events num_events ds = monitor_loop num_events 0 ds \<lparr>info = no_event, lost_strings = 0\<rparr>"

record listener_env =
  l_sock_alloc :: bool
  l_connect :: int
  l_resolve_grp :: int
  l_membership :: int
  l_cb_alloc :: bool

definition get_genl_multicast_socket :: "listener_env \<Rightarrow> unit outcome" where
  "get_genl_multicast_socket e =
     (if \<not> l_sock_alloc e then Exited (- 1)
      else if l_connect e < 0 then Exited (l_connect e)
      else if l_resolve_grp e < 0 then Exited (l_resolve_grp e)
      else if l_membership e < 0 then Exited (l_membership e)
      else Running ())"

definition listener_main :: "listener_env \<Rightarrow> string list \<Rightarrow> (int + nl_msg list) list \<Rightarrow>
    (event_info list \<times> monitor_end \<times> listener) outcome" where
  "listener_main e argv ds =
     (if 2 < length argv then Exited (- EINVAL)
      else let num_events = (if length argv = 2 then c_atoi (argv ! 1) else - 1) in
        bind_outcome (get_genl_multicast_socket e) (\<lambda>_.
          if \<not> l_cb_alloc e then Exited (- 1) else monitor_events num_events ds))"

section \<open>Lemmas\<close>

lemma nla_get_bytes [simp]: "nla_get_u32 (u32_bytes v) = v" "nla_get_u64 (u64_bytes w) = w"
proof -
  have "unat v < 2 ^ 32" using unsigned_less [of v] by simp
  then show "nla_get_u32 (u32_bytes v) = v" by (simp add: nla_get_u32_def u32_bytes_def)
  have "unat w < 2 ^ 64" using unsigned_less [of w] by simp
  then show "nla_get_u64 (u64_bytes w) = w" by (simp add: nla_get_u64_def u64_bytes_def)
qed

lemma length_nla_bytes [simp]: "length (u32_bytes v) = 4" "length (u64_bytes w) = 8"
  by (simp_all add: u32_bytes_def u64_bytes_def)

lemma contract_total_size:
  "nl_contract ops room attrs misaligned \<Longrightarrow> nla_total_size ops n = 4 * ((n + 7) div 4)"
  by (simp add: nl_contract_def)

lemma contract_new:
  "nl_contract ops room attrs misaligned \<Longrightarrow> genlmsg_new ops n = Some s \<Longrightarrow> genlmsg_put ops s = Some s' \<Longrightarrow>
    n \<le> room s' \<and> attrs s' = []"
  unfolding nl_contract_def by blast

lemma contract_put:
  assumes "nl_contract ops room attrs misaligned"
  shows "nla_put ops s t d = None \<and> room s < 4 * ((length d + 7) div 4) \<or>
    (\<exists>s'. nla_put ops s t d = Some s' \<and> 4 * ((length d + 7) div 4) \<le> room s \<and>
      room s' = room s - 4 * ((length d + 7) div 4) \<and> attrs s' = attrs s @ [(t, d)])"
proof -
  have "case nla_put ops s t d of None \<Rightarrow> room s < nla_total_size ops (length d)
      | Some s' \<Rightarrow> nla_total_size ops (length d) \<le> room s \<and>
          room s' = room s - nla_total_size ops (length d) \<and> attrs s' = attrs s @ [(t, d)]"
    using assms unfolding nl_contract_def by blast
  then show ?thesis by (auto simp: contract_total_size [OF assms] split: option.splits)
qed

lemma contract_put_64:
  assumes "nl_contract ops room attrs misaligned"
  shows "\<exists>pad. (pad = [] \<or> pad = [(p, [])]) \<and>
    (nla_put_64bit ops s t d p = None \<and> room s < 4 * ((length d + 7) div 4) + 4 * length pad \<or>
    (\<exists>s'. nla_put_64bit ops s t d p = Some s' \<and> 4 * ((length d + 7) div 4) + 4 * length pad \<le> room s \<and>
      room s' = room s - (4 * ((length d + 7) div 4) + 4 * length pad) \<and> attrs s' = attrs s @ pad @ [(t, d)]))"
proof -
  have "let pad = (if misaligned s then [(p, [])] else []);
            need = nla_total_size ops (length d) + (if misaligned s then nla_total_size ops 0 else 0) in
        case nla_put_64bit ops s t d p of None \<Rightarrow> room s < need
        | Some s' \<Rightarrow> need \<le> room s \<and> room s' = room s - need \<and> attrs s' = attrs s @ pad @ [(t, d)]"
    using assms unfolding nl_contract_def by blast
  then show ?thesis
    by (intro exI [of _ "if misaligned s then [(p, [])] else []"])
      (auto simp: contract_total_size [OF assms] Let_def split: option.splits if_splits)
qed

lemma contract_put_u64:
  assumes "nl_contract ops room attrs misaligned"
  shows "\<exists>pad. (pad = [] \<or> pad = [(p, [])]) \<and>
    (nla_put_64bit ops s t (u64_bytes v) p = None \<and> room s < 12 + 4 * length pad \<or>
    (\<exists>s'. nla_put_64bit ops s t (u64_bytes v) p = Some s' \<and> 12 + 4 * length pad \<le> room s \<and>
      room s' = room s - (12 + 4 * length pad) \<and> attrs s' = attrs s @ pad @ [(t, u64_bytes v)]))"
  using contract_put_64 [OF assms, of p s t "u64_bytes v"] unfolding length_nla_bytes by simp

definition notify_attrs :: "u32 \<Rightarrow> u32 \<Rightarrow> u64 \<Rightarrow> string \<Rightarrow> attr_list \<Rightarrow> attr_list" where
  "notify_attrs i ty ts c pad = [(DEMO_K_ATTR_EVENT_ID, u32_bytes i), (DEMO_K_ATTR_EVENT_TYPE, u32_bytes ty)] @ pad @
     [(DEMO_K_ATTR_TIMESTAMP, u64_bytes ts), (DEMO_K_ATTR_COMPONENT, map char_byte c @ [0])]"

definition component_size :: "string \<Rightarrow> nat" where
  "component_size c = 4 * ((min (length c) DEMO_MAX_STR_LEN + 8) div 4)"

lemma notify_cases:
  assumes k: "nl_contract ops room attrs misaligned"
    and "genlmsg_new ops (20 + component_size c) = Some s0" "genlmsg_put ops s0 = Some s1"
  shows "\<exists>pad. (pad = [] \<or> pad = [(DEMO_K_ATTR_PAD, [])]) \<and>
    (demo_event_notify ops i ty ts c = Skb_leaked \<and> room s1 < 28 + component_size c + 4 * length pad \<or>
     (\<exists>s. demo_event_notify ops i ty ts c = Multicast s \<and> 28 + component_size c + 4 * length pad \<le> room s1 \<and>
       attrs s = notify_attrs i ty ts (take DEMO_MAX_STR_LEN c) pad))"
proof -
  let ?n = "min (length c) DEMO_MAX_STR_LEN"
  have str: "take ?n c = take DEMO_MAX_STR_LEN c" "4 * ((?n + 8) div 4) = component_size c"
    by (simp_all add: min_def component_size_def)
  have alloc: "genlmsg_new ops (0 + (nla_total_size ops 4 + nla_total_size ops 8 + nla_total_size ops (?n + 1))) = Some s0"
    using assms(2) str(2) by (simp add: contract_total_size [OF k] add.commute)
  have empty: "attrs s1 = []" using contract_new [OF k] assms by blast
  note start = demo_event_notify_def Let_def alloc [simplified] assms(3)
  consider "nla_put ops s1 DEMO_K_ATTR_EVENT_ID (u32_bytes i) = None" "room s1 < 8"
    | s2 where "nla_put ops s1 DEMO_K_ATTR_EVENT_ID (u32_bytes i) = Some s2" "8 \<le> room s1" "room s2 = room s1 - 8"
      "attrs s2 = [(DEMO_K_ATTR_EVENT_ID, u32_bytes i)]"
    using contract_put [OF k, of s1 DEMO_K_ATTR_EVENT_ID "u32_bytes i"] empty by auto
  then show ?thesis
  proof cases
    case 1
    then show ?thesis by (intro exI [of _ "[]"]) (simp add: start)
  next
    case s2: 2
    consider "nla_put ops s2 DEMO_K_ATTR_EVENT_TYPE (u32_bytes ty) = None" "room s2 < 8"
      | s3 where "nla_put ops s2 DEMO_K_ATTR_EVENT_TYPE (u32_bytes ty) = Some s3" "8 \<le> room s2" "room s3 = room s2 - 8"
        "attrs s3 = attrs s2 @ [(DEMO_K_ATTR_EVENT_TYPE, u32_bytes ty)]"
      using contract_put [OF k, of s2 DEMO_K_ATTR_EVENT_TYPE "u32_bytes ty"] by auto
    then show ?thesis
    proof cases
      case 1
      then show ?thesis using s2 by (intro exI [of _ "[]"]) (simp add: start)
    next
      case s3: 2
      obtain pad where pad: "pad = [] \<or> pad = [(DEMO_K_ATTR_PAD, [])]" and
        put64: "nla_put_64bit ops s3 DEMO_K_ATTR_TIMESTAMP (u64_bytes ts) DEMO_K_ATTR_PAD = None \<and> room s3 < 12 + 4 * length pad \<or>
        (\<exists>s4. nla_put_64bit ops s3 DEMO_K_ATTR_TIMESTAMP (u64_bytes ts) DEMO_K_ATTR_PAD = Some s4 \<and> 12 + 4 * length pad \<le> room s3 \<and>
          room s4 = room s3 - (12 + 4 * length pad) \<and> attrs s4 = attrs s3 @ pad @ [(DEMO_K_ATTR_TIMESTAMP, u64_bytes ts)])"
        by (rule exE [OF contract_put_u64 [OF k, of DEMO_K_ATTR_PAD s3 DEMO_K_ATTR_TIMESTAMP ts]], erule conjE, rule that)
      from put64 show ?thesis
      proof (elim disjE exE conjE)
        assume "nla_put_64bit ops s3 DEMO_K_ATTR_TIMESTAMP (u64_bytes ts) DEMO_K_ATTR_PAD = None" "room s3 < 12 + 4 * length pad"
        then show ?thesis using s2 s3 pad by (intro exI [of _ pad]) (simp add: start)
      next
        fix s4
        assume s4: "nla_put_64bit ops s3 DEMO_K_ATTR_TIMESTAMP (u64_bytes ts) DEMO_K_ATTR_PAD = Some s4" "12 + 4 * length pad \<le> room s3"
          "room s4 = room s3 - (12 + 4 * length pad)" "attrs s4 = attrs s3 @ pad @ [(DEMO_K_ATTR_TIMESTAMP, u64_bytes ts)]"
        let ?d = "map char_byte (take ?n c) @ [0]"
        have d: "4 * ((length ?d + 7) div 4) = component_size c"
          by (simp add: component_size_def min_def add.commute)
        from contract_put [OF k, of s4 DEMO_K_ATTR_COMPONENT ?d] show ?thesis
          unfolding d using s2 s3 s4 pad
          by (intro exI [of _ pad]) (auto simp: start demo_nla_put_str_def notify_attrs_def str)
      qed
    qed
  qed
qed

section \<open>The way of an event\<close>

definition table_of :: "attr_list \<Rightarrow> nat \<Rightarrow> u8 list option" where
  \<comment> \<open>the table that parsing fills: the last attribute of each type\<close>
  "table_of as = map_of (rev as)"

definition port_name :: "u32 \<Rightarrow> string" where
  "port_name p = ''port-'' @ dec_of (unat p)"

lemma port_name_short: "take DEMO_MAX_STR_LEN (port_name p) = port_name p" "CHR 0x00 \<notin> set (port_name p)"
proof -
  have "unat p < 2 ^ 32" using unsigned_less [of p] by simp
  then have "unat p < 10 ^ 10" by simp
  then have "length (dec_of (unat p)) \<le> 10" using dec_of_length [of "unat p" 10] by simp
  then show "take DEMO_MAX_STR_LEN (port_name p) = port_name p"
    by (simp add: port_name_def DEMO_MAX_STR_LEN_def)
  show "CHR 0x00 \<notin> set (port_name p)"
    using dec_of_digits [of "unat p"] by (auto simp: port_name_def c_isdigit_def)
qed

lemma reporter_sends:
  assumes k: "nl_contract ops room attrs misaligned"
    and e: "sock_alloc e" "0 \<le> sock_connect e" "0 \<le> resolve e" "msg_alloc e = Some m0" "0 \<le> send_auto e"
      "clock e = Some (sec, nsec)" "attrs m0 = []" "20 \<le> room m0"
  shows "\<exists>m. reporter_main ops e [prog, arg] = Running (0, Some m) \<and>
    attrs m = [(DEMO_U_ATTR_EVENT_TYPE, u32_bytes (word_of_int (c_atoi arg))),
      (DEMO_U_ATTR_TIMESTAMP, u64_bytes (sec * 1000000 + nsec div 1000))]"
proof -
  let ?ty = "u32_bytes (word_of_int (c_atoi arg))" let ?ts = "u64_bytes (sec * 1000000 + nsec div 1000)"
  from contract_put [OF k, of m0 DEMO_U_ATTR_EVENT_TYPE ?ty] e obtain m1 where m1:
    "nla_put ops m0 DEMO_U_ATTR_EVENT_TYPE ?ty = Some m1" "12 \<le> room m1" "attrs m1 = [(DEMO_U_ATTR_EVENT_TYPE, ?ty)]"
    by auto
  from contract_put [OF k, of m1 DEMO_U_ATTR_TIMESTAMP ?ts] m1 obtain m2 where m2:
    "nla_put ops m1 DEMO_U_ATTR_TIMESTAMP ?ts = Some m2" "attrs m2 = attrs m1 @ [(DEMO_U_ATTR_TIMESTAMP, ?ts)]"
    by auto
  show ?thesis
    using e m1 m2
    by (simp add: reporter_main_def init_genl_ctx_def report_event_def get_time_us_def put_or_keep_def)
qed

lemma report_handled:
  "demo_event_report ops (table_of [(DEMO_U_ATTR_EVENT_TYPE, u32_bytes ty), (DEMO_U_ATTR_TIMESTAMP, u64_bytes ts)]) p g =
    (0, g + 1, Some (demo_event_notify ops g ty ts (port_name p)))"
  using port_name_short(1) [of p]
  by (simp add: demo_event_report_def table_of_def attr_numbers port_name_def Let_def)

lemma callback_decodes:
  assumes "parse_ret m = 0" "strdup_ok m" "msg_clock m = Some (sec, nsec)"
    and "attr_table m = table_of (notify_attrs i ty ts c pad)" "pad = [] \<or> pad = [(DEMO_K_ATTR_PAD, [])]"
    and "CHR 0x00 \<notin> set c" "component (info l) = None"
  shows "event_callback m l = Running (0, l\<lparr>info := \<lparr>event_id = i, event_type = ty, event_time = ts,
    receive_time = sec * 1000000 + nsec div 1000, component = Some c\<rparr>\<rparr>)"
proof -
  have "map byte_char (map char_byte c @ [0]) = c @ [CHR 0x00]" by (simp add: comp_def)
  then have "c_str (map byte_char (map char_byte c @ [0])) = c" using c_str_no_nul [OF assms(6), of "[]"] by simp
  with assms show ?thesis
    by (auto simp: event_callback_def table_of_def notify_attrs_def attr_numbers get_time_us_def Let_def)
qed

lemma notify_decoded:
  assumes "nl_contract ops room attrs misaligned"
    and "genlmsg_new ops (20 + component_size (port_name p)) = Some s0" "genlmsg_put ops s0 = Some s1"
    and "demo_event_notify ops i ty ts (port_name p) = Multicast s"
    and "parse_ret m = 0" "strdup_ok m" "msg_clock m = Some (sec, nsec)" "attr_table m = table_of (attrs s)"
    and "component (info l) = None"
  shows "event_callback m l = Running (0, l\<lparr>info := \<lparr>event_id = i, event_type = ty, event_time = ts,
    receive_time = sec * 1000000 + nsec div 1000, component = Some (port_name p)\<rparr>\<rparr>)"
  using notify_cases [OF assms(1-3), of i ty ts] assms(4-) port_name_short [of p]
  by (auto intro!: callback_decodes)

lemma run_one_callback:
  "event_callback m l = Running (0, l') \<Longrightarrow> nl_recvmsgs (Inr [m]) l = Running (0, l')"
  by (simp add: nl_recvmsgs_def)

text \<open>The monitoring loop, for events that each come in a datagram of their own.\<close>

definition decodes_to :: "nl_msg \<Rightarrow> event_info \<Rightarrow> bool" where
  "decodes_to m ev \<longleftrightarrow> (\<forall>l. component (info l) = None \<longrightarrow> event_callback m l = Running (0, l\<lparr>info := ev\<rparr>))"

lemma monitor_loop_prints:
  assumes "list_all2 (\<lambda>d ev. \<exists>m. d = Inr [m] \<and> decodes_to m ev) ds evs" and "component (info l) = None"
  shows "\<exists>l'. monitor_loop n cnt ds l =
    Running (if n = - 1 then evs else take (nat (n - cnt)) evs,
      if n = - 1 \<or> int (length ds) < n - cnt then Waiting else Finished, l') \<and> lost_strings l' = lost_strings l"
  using assms
proof (induction ds arbitrary: evs cnt l)
  case Nil
  then show ?case by auto
next
  case (Cons d ds)
  then obtain m ev evs' where m: "d = Inr [m]" "decodes_to m ev" "evs = ev # evs'"
    "list_all2 (\<lambda>d ev. \<exists>m. d = Inr [m] \<and> decodes_to m ev) ds evs'"
    by (auto simp: list_all2_Cons1)
  have "nl_recvmsgs d l = Running (0, l\<lparr>info := ev\<rparr>)"
    using m Cons.prems(2) by (auto intro: run_one_callback simp: decodes_to_def)
  moreover obtain l' where "monitor_loop n (cnt + 1) ds (clear_event_info (l\<lparr>info := ev\<rparr>)) =
      Running (if n = - 1 then evs' else take (nat (n - (cnt + 1))) evs',
        if n = - 1 \<or> int (length ds) < n - (cnt + 1) then Waiting else Finished, l')"
      "lost_strings l' = lost_strings l"
    using Cons.IH [OF m(4), of "clear_event_info (l\<lparr>info := ev\<rparr>)" "cnt + 1"]
    by (auto simp: clear_event_info_def no_event_def)
  moreover have "nat (n - cnt) = Suc (nat (n - (cnt + 1)))" if "cnt + 1 \<le> n" using that by simp
  ultimately show ?case using m(3) by (auto simp: list_all2_lengthD [OF m(4)])
qed

section \<open>A message buffer that keeps the contract\<close>

definition buffer_put :: "nat \<times> attr_list \<Rightarrow> nat \<Rightarrow> u8 list \<Rightarrow> (nat \<times> attr_list) option" where
  "buffer_put s t d = (let need = 4 * ((length d + 7) div 4) in
     if need \<le> fst s then Some (fst s - need, snd s @ [(t, d)]) else None)"

definition buffer_ops :: "nat \<Rightarrow> (nat \<times> attr_list) nl_ops" where
  \<comment> \<open>every buffer has \<open>slack\<close> bytes more than asked for\<close>
  "buffer_ops slack = \<lparr>nla_total_size = (\<lambda>n. 4 * ((n + 7) div 4)), genlmsg_new = (\<lambda>n. Some (n + slack, [])),
     genlmsg_put = Some, nla_put = buffer_put, nla_put_64bit = (\<lambda>s t d p. buffer_put s t d)\<rparr>"

lemma buffer_contract: "nl_contract (buffer_ops slack) fst snd (\<lambda>_. False)"
  by (auto simp: nl_contract_def buffer_ops_def buffer_put_def Let_def split: option.splits if_splits)

section \<open>Properties\<close>

text \<open>
  C10: an event arrives as it was reported. When the reporter's calls succeed it exits with 0 and has sent
  a message which the kernel's handler accepts; the handler numbers the event with \<open>g_event_id\<close> and
  increments it; if a notification is multicast, the listener's callback decodes from it that number,
  the type given on the reporter's command line (as \<open>atoi\<close> reads it), the reporter's time in
  microseconds, and the sender's port as \<open>port-N\<close>.
\<close>
theorem genl_event_roundtrip:
  assumes user: "nl_contract uops uroom uattrs umis" and kernel: "nl_contract kops kroom kattrs kmis"
    and "sock_alloc e" "0 \<le> sock_connect e" "0 \<le> resolve e" "msg_alloc e = Some m0" "0 \<le> send_auto e"
      "clock e = Some (sec, nsec)" "uattrs m0 = []" "20 \<le> uroom m0"
    and "genlmsg_new kops (20 + component_size (port_name portid)) = Some s0" "genlmsg_put kops s0 = Some s1"
  shows "\<exists>m n. reporter_main uops e [prog, arg] = Running (0, Some m) \<and>
    demo_event_report kops (table_of (uattrs m)) portid g_event_id = (0, g_event_id + 1, Some n) \<and>
    (\<forall>s msg. n = Multicast s \<and> parse_ret msg = 0 \<and> strdup_ok msg \<and> msg_clock msg = Some (rsec, rnsec) \<and>
       attr_table msg = table_of (kattrs s) \<longrightarrow>
       decodes_to msg \<lparr>event_id = g_event_id, event_type = word_of_int (c_atoi arg),
         event_time = sec * 1000000 + nsec div 1000, receive_time = rsec * 1000000 + rnsec div 1000,
         component = Some (port_name portid)\<rparr>)"
proof -
  from reporter_sends [OF user assms(3-10)] obtain m where m: "reporter_main uops e [prog, arg] = Running (0, Some m)"
    "uattrs m = [(DEMO_U_ATTR_EVENT_TYPE, u32_bytes (word_of_int (c_atoi arg))),
      (DEMO_U_ATTR_TIMESTAMP, u64_bytes (sec * 1000000 + nsec div 1000))]" by blast
  note notified = notify_decoded [OF kernel assms(11,12), of g_event_id "word_of_int (c_atoi arg)"
    "sec * 1000000 + nsec div 1000"]
  show ?thesis
    unfolding decodes_to_def
    by (intro exI [of _ m] exI conjI, rule m(1), unfold m(2), rule report_handled)
      (auto intro!: notified)
qed

text \<open>
  C32: the notification's size is estimated 8 bytes too small (12 with padding): it counts one 32-bit
  attribute where two are written, and no padding attribute. If the allocation has less than 8 bytes
  to spare, the event is never multicast and the buffer is leaked; with 12 or more bytes to spare
  all attributes are written in order and the notification is sent.
\<close>
theorem notify_size_estimate:
  assumes "nl_contract ops room attrs misaligned"
    and "genlmsg_new ops (20 + component_size c) = Some s0" "genlmsg_put ops s0 = Some s1"
  shows "(room s1 < 20 + component_size c + 8 \<longrightarrow> demo_event_notify ops i ty ts c = Skb_leaked) \<and>
    (20 + component_size c + 12 \<le> room s1 \<longrightarrow> (\<exists>s pad. demo_event_notify ops i ty ts c = Multicast s \<and>
      (pad = [] \<or> pad = [(DEMO_K_ATTR_PAD, [])]) \<and>
      attrs s = notify_attrs i ty ts (take DEMO_MAX_STR_LEN c) pad))"
  using notify_cases [OF assms, of i ty ts] by auto

text \<open>
  the listener prints as many events as it was asked for. When every datagram carries one well-formed
  event, \<open>monitor_events n\<close> prints the first \<open>n\<close> events in order and ends (waiting for more while there
  are fewer), prints nothing for 0 and for negative numbers other than -1, and for -1 prints every
  event and never ends; no string of \<open>nla_strdup\<close> is lost.
\<close>
theorem monitor_events_prints:
  assumes "list_all2 (\<lambda>d ev. \<exists>m. d = Inr [m] \<and> decodes_to m ev) ds evs"
  shows "\<exists>l. monitor_events n ds = Running (if n = - 1 then evs else take (nat n) evs,
      if n = - 1 \<or> int (length ds) < n then Waiting else Finished, l) \<and> lost_strings l = 0"
  using monitor_loop_prints [OF assms, of "\<lparr>info = no_event, lost_strings = 0\<rparr>" n 0]
  by (auto simp: monitor_events_def no_event_def)

section \<open>Witnesses\<close>

definition demo_reporter :: "(nat \<times> attr_list) reporter_env" where
  "demo_reporter = \<lparr>clock = Some (7, 9000), sock_alloc = True, sock_connect = 0, resolve = 25,
     msg_alloc = Some (4000, []), send_auto = 48\<rparr>"

theorem genl_event_roundtrip_witness:
  "\<exists>m n. reporter_main (buffer_ops 0) demo_reporter [''reporter'', ''17''] = Running (0, Some m) \<and>
    demo_event_report (buffer_ops 64) (table_of (snd m)) 42 3 = (0, 4, Some n)"
proof -
  have "genlmsg_new (buffer_ops 64) (20 + component_size (port_name 42)) = Some (20 + component_size (port_name 42) + 64, [])"
    "genlmsg_put (buffer_ops 64) (20 + component_size (port_name 42) + 64, []) =
      Some (20 + component_size (port_name 42) + 64, [])"
    by (simp_all add: buffer_ops_def)
  from genl_event_roundtrip [OF buffer_contract buffer_contract _ _ _ _ _ _ _ _ this,
      where e = demo_reporter and ?m0.0 = "(4000, [])" and sec = 7 and nsec = 9000 and prog = "''reporter''" and
      arg = "''17''" and g_event_id = 3]
  show ?thesis by (simp add: demo_reporter_def) blast
qed

theorem notify_size_estimate_witness:
  "demo_event_notify (buffer_ops 0) 1 2 3 ''port-4'' = Skb_leaked \<and>
   (\<exists>s. demo_event_notify (buffer_ops 12) 1 2 3 ''port-4'' = Multicast s)"
  using notify_size_estimate [OF buffer_contract, of 0 "''port-4''" "(20 + component_size ''port-4'', [])"
      "(20 + component_size ''port-4'', [])" 1 2 3]
    notify_size_estimate [OF buffer_contract, of 12 "''port-4''" "(20 + component_size ''port-4'' + 12, [])"
      "(20 + component_size ''port-4'' + 12, [])" 1 2 3]
  by (auto simp: buffer_ops_def)

theorem monitor_events_prints_witness:
  "\<exists>l. monitor_events 1 [Inr [\<lparr>parse_ret = 0, attr_table = table_of (notify_attrs 1 2 3 ''port-4'' []),
      strdup_ok = True, msg_clock = Some (0, 5000)\<rparr>]] =
    Running ([\<lparr>event_id = 1, event_type = 2, event_time = 3, receive_time = 5, component = Some ''port-4''\<rparr>], Finished, l)"
proof -
  let ?m = "\<lparr>parse_ret = 0, attr_table = table_of (notify_attrs 1 2 3 ''port-4'' []), strdup_ok = True,
    msg_clock = Some (0, 5000)\<rparr>"
  let ?ev = "\<lparr>event_id = 1, event_type = 2, event_time = 3, receive_time = 5, component = Some ''port-4''\<rparr>"
  have "decodes_to ?m ?ev"
    unfolding decodes_to_def
    using callback_decodes [of ?m 0 5000 1 2 3 "''port-4''" "[]"] by simp
  then have "list_all2 (\<lambda>d ev. \<exists>m. d = Inr [m] \<and> decodes_to m ev) [Inr [?m]] [?ev]" by simp
  from monitor_events_prints [OF this, of 1] show ?thesis by auto
qed

end
