(* ===== verification/GenlSession.thy ===== *)
theory GenlSession
  imports Genl
begin

text \<open>
  The generic netlink programs together: the module from loading to unloading, with reports that may arrive at any
  time after the family is registered, and the listener that receives the notifications. Also what the programs
  do when they end: \<open>shutdown_genl_ctx\<close> of \<open>reporter.c\<close>, \<open>put_genl_multicast_socket\<close> and
  \<open>signal_handler\<close> of \<open>listener.c\<close>, \<open>demo_genl_exit\<close> of \<open>genl_demo.c\<close>.
\<close>

section \<open>Policies and the family\<close>

definition DEMO_GENL_NAME :: string where "DEMO_GENL_NAME = ''demo_genl''"
definition DEMO_MCGRP_MONITOR_NAME :: string where "DEMO_MCGRP_MONITOR_NAME = ''demo_monitor''"
definition DEMO_GENL_VERSION :: nat where "DEMO_GENL_VERSION = 1"

definition notify_attr_policy :: "nla_kind list" where
  \<comment> \<open>there is no entry for \<open>DEMO_K_ATTR_EVENT_ID\<close>\<close>
  "notify_attr_policy = (((replicate 6 NLA_UNSPEC)[DEMO_K_ATTR_PAD := NLA_BINARY])[DEMO_K_ATTR_EVENT_TYPE := NLA_U32])
     [DEMO_K_ATTR_TIMESTAMP := NLA_U64, DEMO_K_ATTR_COMPONENT := NLA_NUL_STRING]"

record genl_op =
  op_cmd :: nat
  op_policy :: "nla_kind list"
  op_maxattr :: nat

record genl_family =
  hdrsize :: nat
  family_name :: string
  family_version :: nat
  parallel_ops :: bool
  family_ops :: "genl_op list"
  mcgrps :: "string list"

definition demo_genl_ops :: "genl_op list" where
  "demo_genl_ops = [\<lparr>op_cmd = DEMO_U_CMD_EVENT_REPORT, op_policy = demo_report_attr_policy, op_maxattr = demo_genl_maxattr\<rparr>]"

definition demo_genl_family :: genl_family where
  \<comment> \<open>\<open>struct demo_genl_header\<close> is empty\<close>
  "demo_genl_family = \<lparr>hdrsize = 0, family_name = DEMO_GENL_NAME, family_version = DEMO_GENL_VERSION,
     parallel_ops = True, family_ops = demo_genl_ops, mcgrps = [DEMO_MCGRP_MONITOR_NAME]\<rparr>"

section \<open>The end of the programs\<close>

record genl_ctx =
  nl_sock :: "int option"
  genl_family_id :: nat

definition shutdown_genl_ctx :: "genl_ctx \<Rightarrow> genl_ctx \<times> int rev list" where
  "shutdown_genl_ctx ctx = (case nl_sock ctx of None \<Rightarrow> (ctx, [])
     | Some s \<Rightarrow> (ctx\<lparr>nl_sock := None, genl_family_id := 0\<rparr>, [Release s]))"

definition put_genl_multicast_socket :: "int option \<Rightarrow> int rev list" where
  "put_genl_multicast_socket s = (case s of None \<Rightarrow> [] | Some fd \<Rightarrow> [Release fd])"

definition signal_handler :: "int option \<Rightarrow> listener \<Rightarrow> listener \<times> int rev list \<times> unit outcome" where
  "signal_handler s l = (clear_event_info l, put_genl_multicast_socket s, Exited (- 1))"

definition demo_genl_exit :: "int \<Rightarrow> bool \<Rightarrow> bool" where
  \<comment> \<open>what \<open>genl_unregister_family\<close> returns is only logged\<close>
  "demo_genl_exit unregistered family = (if unregistered = 0 then False else family)"

section \<open>The module and the reports it gets\<close>

type_synonym report = "u32 \<times> u64 \<times> u32"
  \<comment> \<open>event type, time, port of the sender\<close>

definition report_table :: "report \<Rightarrow> nat \<Rightarrow> u8 list option" where
  \<comment> \<open>the attributes of the reporter's message\<close>
  "report_table = (\<lambda>(ty, ts, p).
     table_of [(DEMO_U_ATTR_EVENT_TYPE, u32_bytes ty), (DEMO_U_ATTR_TIMESTAMP, u64_bytes ts)])"

fun handle_reports :: "'s nl_ops \<Rightarrow> u32 \<Rightarrow> report list \<Rightarrow> u32 \<times> 's notified list" where
  \<comment> \<open>\<open>g_event_id\<close> afterwards, and the notifications\<close>
  "handle_reports ops g_event_id [] = (g_event_id, [])"
| "handle_reports ops g_event_id (r # rs) =
     (case demo_event_report ops (report_table r) (snd (snd r)) g_event_id of (ret, g, n) \<Rightarrow>
      case handle_reports ops g rs of (g', ns) \<Rightarrow> (g', (case n of None \<Rightarrow> ns | Some x \<Rightarrow> x # ns)))"

definition load_and_report :: "'s nl_ops \<Rightarrow> int \<Rightarrow> u32 \<Rightarrow> report list \<Rightarrow> report list \<Rightarrow> int \<times> 's notified list" where
  \<comment> \<open>\<open>early\<close> are the reports handled after the family is registered and before init sets \<open>g_event_id\<close>\<close>
  "load_and_report ops registered g_event_id early reports =
     (if registered < 0 then (registered, [])
      else case handle_reports ops g_event_id early of (g, ns) \<Rightarrow>
        case demo_genl_init registered g of (ret, g') \<Rightarrow>
          case handle_reports ops g' reports of (g'', ns') \<Rightarrow> (ret, ns @ ns'))"

section \<open>Lemmas\<close>

definition delivers :: "('s \<Rightarrow> attr_list) \<Rightarrow> 's notified \<Rightarrow> nl_msg \<Rightarrow> bool" where
  \<comment> \<open>the listener's message is the notification, and its calls succeed on it\<close>
  "delivers attrs n m \<longleftrightarrow> (\<exists>s. n = Multicast s \<and> attr_table m = table_of (attrs s)) \<and>
     parse_ret m = 0 \<and> strdup_ok m \<and> msg_clock m \<noteq> None"

definition received_event :: "u32 \<Rightarrow> report \<Rightarrow> nl_msg \<Rightarrow> event_info" where
  "received_event i = (\<lambda>(ty, ts, p) m. \<lparr>event_id = i, event_type = ty, event_time = ts,
     receive_time = (case msg_clock m of None \<Rightarrow> 0 | Some (sec, nsec) \<Rightarrow> sec * 1000000 + nsec div 1000),
     component = Some (port_name p)\<rparr>)"

definition notification :: "'s nl_ops \<Rightarrow> u32 \<times> report \<Rightarrow> 's notified" where
  "notification ops = (\<lambda>(i, ty, ts, p). demo_event_notify ops i ty ts (port_name p))"

definition ids_from :: "u32 \<Rightarrow> nat \<Rightarrow> u32 list" where
  "ids_from g n = map (\<lambda>k. g + word_of_nat k) [0..<n]"

lemma ids_from_Suc: "ids_from g (Suc n) = g # ids_from (g + 1) n"
  by (simp add: ids_from_def upt_conv_Cons map_Suc_upt [symmetric] comp_def add.assoc del: upt_Suc)

lemma length_ids_from [simp]: "length (ids_from g n) = n"
  by (simp add: ids_from_def)

lemma handle_reports_notifies:
  "handle_reports ops g rs = (g + word_of_nat (length rs), map (notification ops) (zip (ids_from g (length rs)) rs))"
proof (induction rs arbitrary: g)
  case (Cons r rs)
  obtain ty ts p where r: "r = (ty, ts, p)" by (metis prod_cases3)
  have "demo_event_report ops (report_table r) (snd (snd r)) g = (0, g + 1, Some (notification ops (g, r)))"
    using report_handled [of ops ty ts p g] by (simp add: r report_table_def notification_def)
  then show ?case by (simp add: Cons.IH ids_from_Suc algebra_simps)
qed (simp add: ids_from_def)

definition notified_ok :: "'s nl_ops \<Rightarrow> ('s \<Rightarrow> nat) \<Rightarrow> ('s \<Rightarrow> attr_list) \<Rightarrow> u32 \<times> report \<Rightarrow> 's notified \<Rightarrow> bool" where
  \<comment> \<open>what may become of the notification of a numbered report: without a buffer nothing is built; without a
     header, or without the room the estimate forgets, the buffer is leaked; otherwise the number and the
     report are multicast\<close>
  "notified_ok ops room attrs = (\<lambda>(i, ty, ts, p) n.
     (case genlmsg_new ops (20 + component_size (port_name p)) of
        None \<Rightarrow> n = Not_built
      | Some s0 \<Rightarrow> (case genlmsg_put ops s0 of
          None \<Rightarrow> n = Skb_leaked
        | Some s1 \<Rightarrow>
            (room s1 < 20 + component_size (port_name p) + 8 \<longrightarrow> n = Skb_leaked) \<and>
            (20 + component_size (port_name p) + 12 \<le> room s1 \<longrightarrow> n \<noteq> Skb_leaked) \<and>
            (n \<noteq> Skb_leaked \<longrightarrow> (\<exists>s pad. n = Multicast s \<and> (pad = [] \<or> pad = [(DEMO_K_ATTR_PAD, [])]) \<and>
               attrs s = notify_attrs i ty ts (port_name p) pad)))))"

lemma notify_start:
  assumes "nl_contract ops room attrs misaligned"
  shows "genlmsg_new ops (20 + component_size c) = None \<Longrightarrow> demo_event_notify ops i ty ts c = Not_built"
    and "genlmsg_new ops (20 + component_size c) = Some s0 \<Longrightarrow> genlmsg_put ops s0 = None \<Longrightarrow>
      demo_event_notify ops i ty ts c = Skb_leaked"
proof -
  have "0 + (nla_total_size ops 4 + nla_total_size ops 8 + nla_total_size ops (min (length c) DEMO_MAX_STR_LEN + 1)) =
      20 + component_size c"
    by (simp add: contract_total_size [OF assms] component_size_def add.commute)
  note start = demo_event_notify_def Let_def this
  show "demo_event_notify ops i ty ts c = Not_built" if "genlmsg_new ops (20 + component_size c) = None"
    using that by (simp only: start option.case)
  show "demo_event_notify ops i ty ts c = Skb_leaked"
    if "genlmsg_new ops (20 + component_size c) = Some s0" "genlmsg_put ops s0 = None"
    using that by (simp only: start option.case)
qed

lemma notification_ok:
  assumes "nl_contract ops room attrs misaligned"
  shows "notified_ok ops room attrs x (notification ops x)"
proof -
  obtain i ty ts p where x: "x = (i, ty, ts, p)" by (metis prod_cases4)
  let ?c = "port_name p"
  show ?thesis
  proof (cases "genlmsg_new ops (20 + component_size ?c)")
    case None
    then show ?thesis using notify_start(1) [OF assms, of ?c i ty ts] by (simp add: x notified_ok_def notification_def)
  next
    case (Some s0)
    show ?thesis
    proof (cases "genlmsg_put ops s0")
      case None
      then show ?thesis using Some notify_start(2) [OF assms, of ?c s0 i ty ts] by (simp add: x notified_ok_def notification_def)
    next
      case put: (Some s1)
      then show ?thesis
        using Some notify_cases [OF assms Some put, of i ty ts] port_name_short(1) [of p]
        by (auto simp: x notified_ok_def notification_def)
    qed
  qed
qed

lemma notification_decoded:
  assumes "nl_contract ops room attrs misaligned" "delivers attrs (notification ops (i, r)) m"
  shows "decodes_to m (received_event i r m)"
proof -
  obtain ty ts p where r: "r = (ty, ts, p)" by (metis prod_cases3)
  obtain sec nsec where clk: "msg_clock m = Some (sec, nsec)" using assms(2) by (auto simp: delivers_def)
  from assms(2) obtain n where n: "demo_event_notify ops i ty ts (port_name p) = Multicast n" "attr_table m = table_of (attrs n)"
    "parse_ret m = 0" "strdup_ok m" by (auto simp: delivers_def notification_def r)
  obtain s s' where new: "genlmsg_new ops (20 + component_size (port_name p)) = Some s" "genlmsg_put ops s = Some s'"
    using notification_ok [OF assms(1), of "(i, r)"] n(1)
    by (auto simp: notified_ok_def notification_def r split: option.splits)
  from notify_decoded [OF assms(1) new n(1) n(3,4) clk n(2)] show ?thesis
    by (simp add: decodes_to_def received_event_def r clk)
qed

lemma monitor_prints:
  assumes "list_all2 (\<lambda>d ev. \<exists>m. d = Inr [m] \<and> decodes_to m ev) ds evs"
  shows "\<exists>l. monitor_events n ds = Running (if n = - 1 then evs else take (nat n) evs,
    if n = - 1 \<or> int (length ds) < n then Waiting else Finished, l) \<and> lost_strings l = 0"
  using monitor_loop_prints [OF assms, of "\<lparr>info = no_event, lost_strings = 0\<rparr>" n 0]
  by (auto simp: monitor_events_def no_event_def)

definition session_ids :: "u32 \<Rightarrow> nat \<Rightarrow> nat \<Rightarrow> u32 list" where
  "session_ids g early reports = ids_from g early @ ids_from 1 reports"

lemma length_session_ids [simp]: "length (session_ids g m n) = m + n"
  by (simp add: session_ids_def)

lemma load_and_report_notifies:
  assumes "0 \<le> registered"
  shows "load_and_report ops registered g early reports =
    (0, map (notification ops) (zip (session_ids g (length early) (length reports)) (early @ reports)))"
  using assms by (simp add: load_and_report_def handle_reports_notifies demo_genl_init_def session_ids_def)

lemma delivered_decodes:
  assumes "nl_contract ops room attrs misaligned" "length is = length rs"
    and "list_all2 (\<lambda>k m. k < length rs \<and> delivers attrs (map (notification ops) (zip is rs) ! k) m) ks ms"
  shows "list_all2 (\<lambda>d ev. \<exists>m. d = Inr [m] \<and> decodes_to m ev) (map (\<lambda>m. Inr [m]) ms)
    (map (\<lambda>(k, m). received_event (is ! k) (rs ! k) m) (zip ks ms))"
  using assms(3)
proof (induction ks ms rule: list_all2_induct)
  case (Cons k ks m ms)
  have "map (notification ops) (zip is rs) ! k = notification ops (is ! k, rs ! k)"
    using Cons.hyps(1) assms(2) by simp
  then have "delivers attrs (notification ops (is ! k, rs ! k)) m" using Cons.hyps(1) by (simp only:)
  from notification_decoded [OF assms(1) this] Cons.IH show ?case by simp
qed simp

section \<open>Properties\<close>

text \<open>
  C6: a whole session of module, reporters and listener. If the family can be registered, init returns 0 and
  each report is handled with a number of its own: those reported after init has returned are numbered from
  1, those handled before init sets \<open>g_event_id\<close> from the old value, so with two of them on the first load the
  number 1 is given twice. A report's notification is multicast, with that number, its type, time and port, if the
  allocator leaves the 8 to 12 bytes that the estimate forgets; otherwise it is leaked and never
  sent. Netlink may lose, delay or repeat notifications: whichever are delivered, in whatever order, a listener whose
  calls succeed on them prints for each exactly one event with the number, type, time and port of the report it
  stems from, up to the number of events it was started for.
\<close>
theorem genl_session:
  assumes "nl_contract ops room attrs misaligned" "0 \<le> registered"
    and "load_and_report ops registered g early reports = (ret, ns)"
    and "ids = session_ids g (length early) (length reports)"
    and "list_all2 (\<lambda>k m. k < length ns \<and> delivers attrs (ns ! k) m) ks ms"
  shows "ret = 0 \<and> list_all2 (notified_ok ops room attrs) (zip ids (early @ reports)) ns \<and>
    (\<exists>l. monitor_events num_events (map (\<lambda>m. Inr [m]) ms) = Running (
        let events = map (\<lambda>(k, m). received_event (ids ! k) ((early @ reports) ! k) m) (zip ks ms)
        in if num_events = - 1 then events else take (nat num_events) events,
        if num_events = - 1 \<or> int (length ms) < num_events then Waiting else Finished, l) \<and>
      lost_strings l = 0) \<and>
    (\<forall>k < length reports. ids ! (length early + k) = 1 + word_of_nat k) \<and>
    (\<forall>k < length early. ids ! k = g + word_of_nat k) \<and>
    (2 \<le> length early \<and> g = 0 \<and> reports \<noteq> [] \<longrightarrow> ids ! 1 = ids ! length early)"
proof -
  let ?rs = "early @ reports"
  have ret: "ret = 0" and ns: "ns = map (notification ops) (zip ids ?rs)"
    using load_and_report_notifies [OF assms(2), of ops g early reports] assms(3,4) by simp_all
  have len: "length ids = length ?rs" by (simp add: assms(4))
  have "list_all2 (notified_ok ops room attrs) (zip ids ?rs) ns"
    by (simp add: ns list_all2_conv_all_nth notification_ok [OF assms(1)])
  moreover have "list_all2 (\<lambda>k m. k < length ?rs \<and> delivers attrs (map (notification ops) (zip ids ?rs) ! k) m) ks ms"
    using assms(5) len by (simp add: ns)
  note monitor_prints [OF delivered_decodes [OF assms(1) len this], of num_events]
  moreover have "ids ! (length early + k) = 1 + word_of_nat k" if "k < length reports" for k
    using that by (simp add: assms(4) session_ids_def ids_from_def nth_append)
  moreover have "ids ! k = g + word_of_nat k" if "k < length early" for k
    using that by (simp add: assms(4) session_ids_def ids_from_def nth_append)
  moreover have "ids ! 1 = ids ! length early" if "2 \<le> length early" "g = 0" "reports \<noteq> []"
    using that by (simp add: assms(4) session_ids_def ids_from_def nth_append)
  ultimately show ?thesis using ret by (simp add: Let_def)
qed

section \<open>Witnesses\<close>

definition demo_msg :: "(nat \<times> attr_list) notified \<Rightarrow> nl_msg" where
  "demo_msg n = \<lparr>parse_ret = 0, attr_table = (case n of Multicast s \<Rightarrow> table_of (snd s) | _ \<Rightarrow> (\<lambda>_. None)),
     strdup_ok = True, msg_clock = Some (0, 5000)\<rparr>"

theorem genl_session_witness:
  "\<exists>ns l. load_and_report (buffer_ops 12) 0 0 [(7, 8, 9), (7, 8, 9)] [(1, 2, 3)] = (0, ns) \<and>
    monitor_events (- 1) (map (\<lambda>m. Inr [m]) [demo_msg (ns ! 2), demo_msg (ns ! 0)]) = Running (
      [received_event 1 (1, 2, 3) (demo_msg (ns ! 2)), received_event 0 (7, 8, 9) (demo_msg (ns ! 0))], Waiting, l)"
proof -
  define reps :: "report list" where "reps = [(7, 8, 9), (7, 8, 9)]"
  define ids where "ids = session_ids 0 (length reps) 1"
  define ns where "ns = map (notification (buffer_ops 12)) (zip ids (reps @ [(1, 2, 3)]))"
  have run: "load_and_report (buffer_ops 12) 0 0 reps [(1, 2, 3)] = (0, ns)"
    by (simp add: ns_def ids_def load_and_report_notifies)
  have ids: "ids = [0, 1, 1]" by (simp add: ids_def reps_def session_ids_def ids_from_def upt_rec)
  have multi: "\<exists>s. notification (buffer_ops 12) x = Multicast s" for x
    using notification_ok [OF buffer_contract, of 12 x]
    by (cases x) (auto simp: notified_ok_def buffer_ops_def)
  have "delivers snd (notification (buffer_ops 12) x) (demo_msg (notification (buffer_ops 12) x))" for x
    using multi [of x] by (auto simp: delivers_def demo_msg_def)
  then have deliv: "list_all2 (\<lambda>k m. k < length ns \<and> delivers snd (ns ! k) m) [2, 0] [demo_msg (ns ! 2), demo_msg (ns ! 0)]"
    by (simp add: ns_def ids reps_def)
  have idseq: "ids = session_ids 0 (length reps) (length [(1, 2, 3) :: report])" by (simp add: ids_def)
  obtain l where "monitor_events (- 1) (map (\<lambda>m. Inr [m]) [demo_msg (ns ! 2), demo_msg (ns ! 0)]) = Running (
      map (\<lambda>(k, m). received_event (ids ! k) ((reps @ [(1, 2, 3)]) ! k) m) (zip [2, 0] [demo_msg (ns ! 2), demo_msg (ns ! 0)]),
      Waiting, l)"
    using genl_session [OF buffer_contract order_refl run idseq deliv, where num_events = "- 1"] by auto
  then show ?thesis using run by (auto simp: ids reps_def)
qed

end
