(* ===== verification/UnixSocket.thy ===== *)
theory UnixSocket
  imports Machine
begin

text \<open>
  The unix domain socket demo \<open>linux-c/socket/unix-socket\<close>: a stream and a datagram client, a stream and
  a datagram server. Client and server exchange a request and an acknowledgement. What the system calls
  return is given by \<open>unix_env\<close>, including the uninitialised contents of the data buffer; a result is the
  return value, the bytes written and the trace of descriptors and socket files.
\<close>

section \<open>Messages, addresses and results\<close>

definition SERVER_STREAM_SOCKET_PATH :: string where "SERVER_STREAM_SOCKET_PATH = ''/tmp/unix_stream_socket''"
definition SERVER_DGRAM_SOCKET_PATH :: string where "SERVER_DGRAM_SOCKET_PATH = ''/tmp/unix_dgram_socket-server''"
definition CLIENT_DGRAM_SOCKET_PATH :: string where "CLIENT_DGRAM_SOCKET_PATH = ''/tmp/unix_dgram_socket-client''"
definition DATA_BUFFER_SIZE :: nat where "DATA_BUFFER_SIZE = 64"
definition CLIENT_REQ_MSG :: string where "CLIENT_REQ_MSG = ''CLIENT_REQ''"
definition SERVER_ACK_MSG :: string where "SERVER_ACK_MSG = ''SERVER_ACK''"

definition set_unix_socket_path :: "string \<Rightarrow> string" where
  \<comment> \<open>the contents of \<open>sun_path\<close>, an array of 108 bytes\<close>
  "set_unix_socket_path pathname = take 107 pathname @ replicate (108 - min 107 (length pathname)) CHR 0x00"

datatype sock_res = Fd int | Sock_file string

record unix_env =
  u_socket :: int
  u_bind :: int
  u_listen :: int
  u_accept :: int
  u_connect :: int
  u_in :: "int \<times> string"     \<comment> \<open>\<open>read\<close> or \<open>recvfrom\<close>: the count or -1, and the bytes\<close>
  u_out :: int               \<comment> \<open>\<open>write\<close> or \<open>sendto\<close>\<close>
  u_unlink :: int
  u_buffer :: string         \<comment> \<open>\<open>data_buffer\<close> before the read\<close>

record sock_result =
  r_ret :: int
  r_written :: string
  r_trace :: "sock_res rev list"

definition finish :: "int \<Rightarrow> string \<Rightarrow> sock_res rev list \<Rightarrow> sock_result outcome" where
  "finish ret w t = Running \<lparr>r_ret = ret, r_written = w, r_trace = t\<rparr>"

definition unlink_file :: "unix_env \<Rightarrow> string \<Rightarrow> int \<Rightarrow> int \<times> sock_res rev list" where
  \<comment> \<open>\<open>if (unlink (path) == -1) ret = ret ? ret : -1\<close>\<close>
  "unlink_file e path ret =
     (if u_unlink e = - 1 then (if ret \<noteq> 0 then ret else - 1, []) else (ret, [Release (Sock_file path)]))"

section \<open>Receiving and sending a message\<close>

text \<open>
  \<open>receive_msg\<close>: read into the buffer, print it as a string (\<open>Crashed\<close> when no NUL ends it within the
  buffer), compare it with the expected message and its NUL. The result is the value of \<open>ret\<close>.
\<close>

definition receive_msg :: "unix_env \<Rightarrow> string \<Rightarrow> int outcome" where
  "receive_msg e expected = (case u_in e of (num_bytes, bytes) \<Rightarrow>
     if num_bytes = - 1 then Running (- 1)
     else if num_bytes = 0 then Running (- 1)
     else let data_buffer = bytes @ drop (length bytes) (u_buffer e) in
       if CHR 0x00 \<notin> set data_buffer then Crashed
       else if take (length expected + 1) data_buffer \<noteq> expected @ [CHR 0x00] then Running (- 1)
       else Running 0)"

definition send_msg :: "unix_env \<Rightarrow> string \<Rightarrow> int \<times> string" where
  \<comment> \<open>the value of \<open>ret\<close> and the bytes written\<close>
  "send_msg e msg = (let bytes = msg @ [CHR 0x00]; num_bytes = u_out e in
     if num_bytes = - 1 then (- 1, [])
     else if num_bytes \<noteq> int (length bytes) then (- 1, take (nat num_bytes) bytes)
     else (0, bytes))"

definition serve_request :: "unix_env \<Rightarrow> (int \<times> string) outcome" where
  \<comment> \<open>the servers' exchange: request in, acknowledgement out\<close>
  "serve_request e = bind_outcome (receive_msg e CLIENT_REQ_MSG) (\<lambda>ret.
     Running (if ret \<noteq> 0 then (ret, []) else send_msg e SERVER_ACK_MSG))"

definition issue_request :: "unix_env \<Rightarrow> (int \<times> string) outcome" where
  \<comment> \<open>the clients' exchange: request out, acknowledgement in\<close>
  "issue_request e = (case send_msg e CLIENT_REQ_MSG of (ret, w) \<Rightarrow>
     if ret \<noteq> 0 then Running (ret, w)
     else bind_outcome (receive_msg e SERVER_ACK_MSG) (\<lambda>ret. Running (ret, w)))"

section \<open>The four programs\<close>

definition run_stream_client :: "unix_env \<Rightarrow> sock_result outcome" where
  "run_stream_client e =
     (let sock_fd = u_socket e in
      if sock_fd = - 1 then finish (- 1) [] []
      else if u_connect e = - 1 then finish (- 1) [] [Acquire (Fd sock_fd), Release (Fd sock_fd)]
      else bind_outcome (issue_request e) (\<lambda>(ret, w).
        finish ret w [Acquire (Fd sock_fd), Release (Fd sock_fd)]))"

definition run_datagram_client :: "unix_env \<Rightarrow> sock_result outcome" where
  "run_datagram_client e =
     (let sock_fd = u_socket e; path = CLIENT_DGRAM_SOCKET_PATH in
      if sock_fd = - 1 then finish (- 1) [] []
      else if u_bind e = - 1 then finish (- 1) [] [Acquire (Fd sock_fd), Release (Fd sock_fd)]
      else bind_outcome (issue_request e) (\<lambda>(ret, w). case unlink_file e path ret of (ret, t) \<Rightarrow>
        finish ret w ([Acquire (Fd sock_fd), Acquire (Sock_file path)] @ t @ [Release (Fd sock_fd)])))"

definition run_stream_server :: "unix_env \<Rightarrow> sock_result outcome" where
  "run_stream_server e =
     (let sock_fd = u_socket e; path = SERVER_STREAM_SOCKET_PATH;
          out_unlink = (\<lambda>ret w t1. case unlink_file e path ret of (ret, t) \<Rightarrow>
            finish ret w ([Acquire (Fd sock_fd), Acquire (Sock_file path)] @ t1 @ t @ [Release (Fd sock_fd)])) in
      if sock_fd = - 1 then finish (- 1) [] []
      else if u_bind e = - 1 then finish (- 1) [] [Acquire (Fd sock_fd), Release (Fd sock_fd)]
      else if u_listen e = - 1 then out_unlink (- 1) [] []
      else let conn_fd = u_accept e in
        if conn_fd = - 1 then out_unlink (- 1) [] []
        else bind_outcome (serve_request e) (\<lambda>(ret, w).
          out_unlink ret w [Acquire (Fd conn_fd), Release (Fd conn_fd)]))"

definition run_datagram_server :: "unix_env \<Rightarrow> sock_result outcome" where
  "run_datagram_server e =
     (let sock_fd = u_socket e; path = SERVER_DGRAM_SOCKET_PATH in
      if sock_fd = - 1 then finish (- 1) [] []
      else if u_bind e = - 1 then finish (- 1) [] [Acquire (Fd sock_fd), Release (Fd sock_fd)]
      else bind_outcome (serve_request e) (\<lambda>(ret, w). case unlink_file e path ret of (ret, t) \<Rightarrow>
        finish ret w ([Acquire (Fd sock_fd), Acquire (Sock_file path)] @ t @ [Release (Fd sock_fd)])))"

definition run_both :: "(unix_env \<Rightarrow> sock_result outcome) \<Rightarrow> (unix_env \<Rightarrow> sock_result outcome) \<Rightarrow>
    unix_env \<Rightarrow> unix_env \<Rightarrow> int outcome" where
  \<comment> \<open>both \<open>main\<close> functions: the datagram part only after a successful stream part\<close>
  "run_both stream dgram e1 e2 = bind_outcome (stream e1) (\<lambda>r1.
     if r_ret r1 \<noteq> 0 then Running (r_ret r1) else bind_outcome (dgram e2) (\<lambda>r2. Running (r_ret r2)))"

definition client_main :: "unix_env \<Rightarrow> unix_env \<Rightarrow> int outcome" where
  "client_main = run_both run_stream_client run_datagram_client"

definition server_main :: "unix_env \<Rightarrow> unix_env \<Rightarrow> int outcome" where
  "server_main = run_both run_stream_server run_datagram_server"

lemmas unix_ops = finish_def unlink_file_def Let_def

section \<open>Specification and lemmas\<close>

definition reads_as :: "unix_env \<Rightarrow> string \<Rightarrow> bool" where
  \<comment> \<open>the buffer holds the message and its NUL after the read\<close>
  "reads_as e msg \<longleftrightarrow> fst (u_in e) \<noteq> - 1 \<and> fst (u_in e) \<noteq> 0 \<and>
     take (length msg + 1) (snd (u_in e) @ drop (length (snd (u_in e))) (u_buffer e)) = msg @ [CHR 0x00]"

definition unterminated :: "unix_env \<Rightarrow> bool" where
  \<comment> \<open>the read gets something, and there is no NUL in the buffer after it\<close>
  "unterminated e \<longleftrightarrow> fst (u_in e) \<noteq> - 1 \<and> fst (u_in e) \<noteq> 0 \<and>
     CHR 0x00 \<notin> set (snd (u_in e) @ drop (length (snd (u_in e))) (u_buffer e))"

definition bytes_out :: "unix_env \<Rightarrow> string \<Rightarrow> string" where
  \<comment> \<open>what the write of the message and its NUL takes\<close>
  "bytes_out e msg = (if u_out e = - 1 then [] else take (nat (u_out e)) (msg @ [CHR 0x00]))"

lemma reads_terminated: "reads_as e msg \<Longrightarrow> \<not> unterminated e"
proof -
  assume r: "reads_as e msg"
  let ?b = "snd (u_in e) @ drop (length (snd (u_in e))) (u_buffer e)"
  have "CHR 0x00 \<in> set (take (length msg + 1) ?b)" using r by (simp add: reads_as_def)
  then have "CHR 0x00 \<in> set ?b" by (rule in_set_takeD)
  then show ?thesis unfolding unterminated_def by blast
qed

lemma receive_msg_eq:
  "receive_msg e msg = (if unterminated e then Crashed else Running (if reads_as e msg then 0 else - 1))"
proof (cases "unterminated e")
  case True
  then show ?thesis by (auto simp: receive_msg_def unterminated_def Let_def split: prod.splits)
next
  case False
  then show ?thesis by (auto simp: receive_msg_def unterminated_def reads_as_def Let_def split: prod.splits)
qed

lemma send_msg_eq: "length msg = 10 \<Longrightarrow> send_msg e msg = (if u_out e = 11 then 0 else - 1, bytes_out e msg)"
  by (auto simp: send_msg_def bytes_out_def Let_def)

lemma serve_request_eq:
  "serve_request e = (if unterminated e then Crashed
     else if reads_as e CLIENT_REQ_MSG then Running (if u_out e = 11 then 0 else - 1, bytes_out e SERVER_ACK_MSG)
     else Running (- 1, []))"
  by (simp add: serve_request_def receive_msg_eq send_msg_eq SERVER_ACK_MSG_def)

lemma issue_request_eq:
  "issue_request e = (if u_out e = 11 then
       (if unterminated e then Crashed
        else Running (if reads_as e SERVER_ACK_MSG then 0 else - 1, bytes_out e CLIENT_REQ_MSG))
     else Running (- 1, bytes_out e CLIENT_REQ_MSG))"
  by (simp add: issue_request_def receive_msg_eq send_msg_eq CLIENT_REQ_MSG_def)

record unix_program =
  body :: "unix_env \<Rightarrow> sock_result outcome"
  is_client :: bool                 \<comment> \<open>it sends first\<close>
  prepared :: "unix_env \<Rightarrow> bool"    \<comment> \<open>the calls before the exchange succeed\<close>
  sock_path :: "string option"      \<comment> \<open>the socket file it makes\<close>
  expected :: string
  sent :: string







definition unix_up :: "unix_env \<Rightarrow> bool" where
  \<comment> \<open>every call succeeds and writes in full\<close>
  "unix_up e \<longleftrightarrow> u_socket e \<noteq> - 1 \<and> u_bind e \<noteq> - 1 \<and> u_listen e \<noteq> - 1 \<and> u_accept e \<noteq> - 1 \<and>
     u_connect e \<noteq> - 1 \<and> u_unlink e \<noteq> - 1 \<and> u_out e = 11"

definition delivered :: "string \<Rightarrow> unix_env \<Rightarrow> unix_env" where
  \<comment> \<open>the read of \<open>e\<close> gets the bytes \<open>w\<close> that the peer wrote\<close>
  "delivered w e = e\<lparr>u_in := (int (length w), w)\<rparr>"

lemma delivered_reads: "reads_as (delivered (msg @ [CHR 0x00]) e) msg"
  by (simp add: reads_as_def delivered_def)

lemma unix_up_delivered [simp]: "unix_up (delivered w e) = unix_up e" "u_out (delivered w e) = u_out e"
  by (simp_all add: unix_up_def delivered_def)

lemma issue_ok: "reads_as e SERVER_ACK_MSG \<Longrightarrow> u_out e = 11 \<Longrightarrow> issue_request e = Running (0, CLIENT_REQ_MSG @ [CHR 0x00])"
  using reads_terminated by (simp add: issue_request_eq bytes_out_def CLIENT_REQ_MSG_def)

lemma serve_ok: "reads_as e CLIENT_REQ_MSG \<Longrightarrow> u_out e = 11 \<Longrightarrow> serve_request e = Running (0, SERVER_ACK_MSG @ [CHR 0x00])"
  using reads_terminated by (simp add: serve_request_eq bytes_out_def SERVER_ACK_MSG_def)

lemma clients_up:
  assumes "unix_up e" "reads_as e SERVER_ACK_MSG"
  shows "\<exists>r. run_stream_client e = Running r \<and> r_ret r = 0 \<and> r_written r = CLIENT_REQ_MSG @ [CHR 0x00]"
    "\<exists>r. run_datagram_client e = Running r \<and> r_ret r = 0 \<and> r_written r = CLIENT_REQ_MSG @ [CHR 0x00]"
  using assms issue_ok [OF assms(2)]
  by (auto simp: unix_up_def run_stream_client_def run_datagram_client_def unix_ops)

lemma servers_up:
  assumes "unix_up e" "reads_as e CLIENT_REQ_MSG"
  shows "\<exists>r. run_stream_server e = Running r \<and> r_ret r = 0 \<and> r_written r = SERVER_ACK_MSG @ [CHR 0x00]"
    "\<exists>r. run_datagram_server e = Running r \<and> r_ret r = 0 \<and> r_written r = SERVER_ACK_MSG @ [CHR 0x00]"
  using assms serve_ok [OF assms(2)]
  by (auto simp: unix_up_def run_stream_server_def run_datagram_server_def unix_ops)

section \<open>Properties\<close>


text \<open>
  the handshake works. When all system calls succeed, there are bytes \<open>req\<close> and \<open>ack\<close> such that the
  client that reads \<open>ack\<close> writes \<open>req\<close> and the server that reads \<open>req\<close> writes \<open>ack\<close>, all four programs
  return 0, whatever the buffers held before, and both \<open>main\<close> functions exit with 0.
\<close>
theorem unix_handshake:
  assumes "unix_up c1" "unix_up c2" "unix_up s1" "unix_up s2"
  shows "\<exists>req ack rc1 rc2 rs1 rs2.
    run_stream_client (delivered ack c1) = Running rc1 \<and> run_datagram_client (delivered ack c2) = Running rc2 \<and>
    run_stream_server (delivered req s1) = Running rs1 \<and> run_datagram_server (delivered req s2) = Running rs2 \<and>
    r_written rc1 = req \<and> r_written rc2 = req \<and> r_written rs1 = ack \<and> r_written rs2 = ack \<and>
    r_ret rc1 = 0 \<and> r_ret rc2 = 0 \<and> r_ret rs1 = 0 \<and> r_ret rs2 = 0 \<and>
    client_main (delivered ack c1) (delivered ack c2) = Running 0 \<and>
    server_main (delivered req s1) (delivered req s2) = Running 0"
proof -
  let ?req = "CLIENT_REQ_MSG @ [CHR 0x00]" let ?ack = "SERVER_ACK_MSG @ [CHR 0x00]"
  have up: "unix_up (delivered ?ack c1)" "unix_up (delivered ?ack c2)" "unix_up (delivered ?req s1)" "unix_up (delivered ?req s2)"
    using assms by simp_all
  from clients_up(1) [OF up(1) delivered_reads] clients_up(2) [OF up(2) delivered_reads]
    servers_up(1) [OF up(3) delivered_reads] servers_up(2) [OF up(4) delivered_reads]
  show ?thesis
    by (intro exI [of _ ?req] exI [of _ ?ack]) (auto simp: client_main_def server_main_def run_both_def)
qed

section \<open>Witnesses\<close>

definition demo_unix :: unix_env where
  "demo_unix = \<lparr>u_socket = 3, u_bind = 0, u_listen = 0, u_accept = 4, u_connect = 0, u_in = (0, []),
     u_out = 11, u_unlink = 0, u_buffer = replicate 64 CHR ''?''\<rparr>"


theorem unix_handshake_witness:
  "\<exists>ack. client_main (delivered ack demo_unix) (delivered ack demo_unix) = Running 0"
proof -
  have "unix_up demo_unix" by (simp add: unix_up_def demo_unix_def)
  from unix_handshake [OF this this this this] show ?thesis by blast
qed

end
