(* ===== verification/SysfsDemo.thy ===== *)
theory SysfsDemo
  imports Machine
begin

text \<open>
  The sysfs demo \<open>kernel-module/sysfs\<close>: the module \<open>demo_sysfs.c\<close>, which publishes an entity as two text
  attributes and a binary one, and the user program \<open>demo_reader.c\<close>, which reads them back and compares
  the result with the template both share (\<open>demo.h\<close>). The files are those that the
  module's attribute groups create; the kernel's device functions and what the C library reads from a file are
  arguments; devices, memory and descriptors are followed by a trace.
\<close>

section \<open>The entity (demo.h)\<close>

definition DEMO_ROOT_DEV_NAME :: string where "DEMO_ROOT_DEV_NAME = ''demo-root''"
definition DEMO_DEV_NAME :: string where "DEMO_DEV_NAME = ''demo-sysfs''"
definition DEMO_VERSION_STR_LEN :: nat where "DEMO_VERSION_STR_LEN = 32"
definition DEMO_DATA_SIZE :: nat where "DEMO_DATA_SIZE = 8"

record entity =
  magic :: u64
  version :: string        \<comment> \<open>an array of 32 characters\<close>
  data :: "u8 list"        \<comment> \<open>an array of 8 bytes\<close>

definition pad_version :: "string \<Rightarrow> string" where
  "pad_version v = v @ replicate (DEMO_VERSION_STR_LEN - length v) CHR 0x00"

definition entity_template :: entity where
  "entity_template = \<lparr>magic = 0x31415926, version = pad_version ''2025.02.26'',
     data = [0x01, 0x23, 0x45, 0x67, 0x89, 0xAB, 0xCD, 0xEF]\<rparr>"

definition entity_ok :: "entity \<Rightarrow> bool" where
  \<comment> \<open>a version that is one word, padded with NULs, and data of the right size\<close>
  "entity_ok en \<longleftrightarrow> (\<exists>v. version en = pad_version v \<and> v \<noteq> [] \<and> length v < DEMO_VERSION_STR_LEN \<and>
     (\<forall>c \<in> set v. c \<noteq> CHR 0x00 \<and> \<not> c_isspace c)) \<and> length (data en) = DEMO_DATA_SIZE"

section \<open>The module\<close>

definition magic_show :: "entity \<Rightarrow> string" where "magic_show en = printf_hex (unat (magic en))"
definition version_show :: "entity \<Rightarrow> string" where "version_show en = c_str (version en)"
definition bin_attr_data :: "entity \<Rightarrow> u8 list" where "bin_attr_data en = data en"

text \<open>The attributes by name, and the group that puts all of them into the device's own directory.\<close>

record attribute_group =
  group_dir :: "string option"   \<comment> \<open>\<open>NULL\<close>: no directory of its own\<close>
  attrs :: "string list"
  bin_attrs :: "string list"

definition root_attrs :: "string list" where "root_attrs = [''magic'', ''version'']"
definition root_bin_attrs :: "string list" where "root_bin_attrs = [''data'']"

definition root_attr_group :: attribute_group where
  "root_attr_group = \<lparr>group_dir = None, attrs = root_attrs, bin_attrs = root_bin_attrs\<rparr>"

definition entity_show :: "string \<Rightarrow> entity \<Rightarrow> string option" where
  \<comment> \<open>the \<open>show\<close> function of each text attribute\<close>
  "entity_show name en = (if name = ''magic'' then Some (magic_show en)
     else if name = ''version'' then Some (version_show en) else None)"

datatype dev_res = Root_device | Entity_memory | Device_name | Device_online

record dev_env =
  root_ok :: bool          \<comment> \<open>\<open>root_device_register\<close> gives a device\<close>
  kzalloc_ok :: bool
  set_name_ret :: int
  device_add_ret :: int

record sysfs_state =
  root_dev :: bool
  entity_dev :: "entity option"
  online :: bool

definition sysfs_unloaded :: sysfs_state where
  "sysfs_unloaded = \<lparr>root_dev = False, entity_dev = None, online = False\<rparr>"

definition release_entity_device :: "dev_res rev list" where
  "release_entity_device = [Release Entity_memory]"

definition put_device :: "dev_res rev list" where
  \<comment> \<open>the last reference: the driver core calls \<open>release\<close> and then frees the name\<close>
  "put_device = release_entity_device @ [Release Device_name]"

definition create_and_online_entity_device :: "dev_env \<Rightarrow> sysfs_state \<Rightarrow> int \<times> sysfs_state \<times> dev_res rev list" where
  "create_and_online_entity_device e s =
     (if \<not> kzalloc_ok e then (- ENOMEM, s\<lparr>entity_dev := None\<rparr>, [])
      else if set_name_ret e \<noteq> 0
      then (set_name_ret e, s\<lparr>entity_dev := None\<rparr>, [Acquire Entity_memory, Release Entity_memory])
      else if device_add_ret e \<noteq> 0
      then (device_add_ret e, s\<lparr>entity_dev := None\<rparr>,
            [Acquire Entity_memory, Acquire Device_name, Release Entity_memory])
      else (0, s\<lparr>entity_dev := Some entity_template, online := True\<rparr>,
            [Acquire Entity_memory, Acquire Device_name, Acquire Device_online]))"

definition offline_entity_device :: "sysfs_state \<Rightarrow> sysfs_state \<times> dev_res rev list" where
  "offline_entity_device s = (s\<lparr>online := False\<rparr>, [Release Device_online] @ put_device)"

definition demo_sysfs_init :: "dev_env \<Rightarrow> sysfs_state \<Rightarrow> int \<times> sysfs_state \<times> dev_res rev list" where
  "demo_sysfs_init e s =
     (if \<not> root_ok e then (- EPERM, s\<lparr>root_dev := False\<rparr>, [])
      else case create_and_online_entity_device e (s\<lparr>root_dev := True\<rparr>) of (ret, s1, t) \<Rightarrow>
        if ret \<noteq> 0 then (ret, s1\<lparr>root_dev := False\<rparr>, [Acquire Root_device] @ t @ [Release Root_device])
        else (0, s1, [Acquire Root_device] @ t))"

definition demo_sysfs_exit :: "sysfs_state \<Rightarrow> sysfs_state \<times> dev_res rev list" where
  "demo_sysfs_exit s = (case offline_entity_device s of (s1, t) \<Rightarrow>
     (s1\<lparr>root_dev := False\<rparr>, t @ [Release Root_device]))"

section \<open>The reader\<close>

record sysfs_files =
  magic_file :: "string option"      \<comment> \<open>\<open>None\<close>: \<open>fopen\<close> fails\<close>
  version_file :: "string option"
  data_fd :: int
  data_read :: "u8 list option"      \<comment> \<open>\<open>None\<close>: \<open>read\<close> returns -1\<close>

datatype file_res = Stream string | Fd int

definition scan_word :: "string \<Rightarrow> string option" where
  \<comment> \<open>\<open>fscanf\<close> with \<open>%s\<close>\<close>
  "scan_word s = (let w = takeWhile (\<lambda>c. \<not> c_isspace c) (ltrim s) in if w = [] then None else Some w)"

definition store_version :: "string \<Rightarrow> string \<Rightarrow> string outcome" where
  \<comment> \<open>storing a word and its NUL into an array; too long a word is written past its end\<close>
  "store_version w arr = (if length w < length arr then Running (w @ [CHR 0x00] @ drop (length w + 1) arr) else Crashed)"

definition read_entity_ascii :: "sysfs_files \<Rightarrow> entity \<Rightarrow> (int \<times> entity \<times> file_res rev list) outcome" where
  "read_entity_ascii f en =
     (case magic_file f of None \<Rightarrow> Running (- 1, en, [])
      | Some ms \<Rightarrow>
        let t1 = [Acquire (Stream ''magic''), Release (Stream ''magic'')] in
        (case scan_hex ms of None \<Rightarrow> Running (- 1, en, t1)
         | Some (m, _) \<Rightarrow>
           (case version_file f of None \<Rightarrow> Running (- 1, en\<lparr>magic := m\<rparr>, t1)
            | Some vs \<Rightarrow>
              let t2 = t1 @ [Acquire (Stream ''version''), Release (Stream ''version'')] in
              (case scan_word vs of None \<Rightarrow> Running (- 1, en\<lparr>magic := m\<rparr>, t2)
               | Some w \<Rightarrow> bind_outcome (store_version w (version en))
                   (\<lambda>v. Running (0, en\<lparr>magic := m, version := v\<rparr>, t2))))))"

definition read_entity_binary :: "sysfs_files \<Rightarrow> entity \<Rightarrow> int \<times> entity \<times> file_res rev list" where
  \<comment> \<open>on success the descriptor is not closed\<close>
  "read_entity_binary f en =
     (let fd = data_fd f in
      if fd = - 1 then (- 1, en, [])
      else case data_read f of
        None \<Rightarrow> (- 1, en, [Acquire (Fd fd), Release (Fd fd)])
      | Some bs \<Rightarrow>
          let en1 = en\<lparr>data := take DEMO_DATA_SIZE bs @ drop (length bs) (data en)\<rparr> in
          if length bs \<noteq> DEMO_DATA_SIZE then (- 1, en1, [Acquire (Fd fd), Release (Fd fd)])
          else (0, en1, [Acquire (Fd fd)]))"

definition read_entity :: "sysfs_files \<Rightarrow> entity \<Rightarrow> (int \<times> entity \<times> file_res rev list) outcome" where
  \<comment> \<open>the result of the binary read is dropped\<close>
  "read_entity f en = bind_outcome (read_entity_ascii f en) (\<lambda>(ret, en1, t1).
     if ret \<noteq> 0 then Running (ret, en1, t1)
     else case read_entity_binary f en1 of (_, en2, t2) \<Rightarrow> Running (0, en2, t1 @ t2))"

definition zero_entity :: entity where
  "zero_entity = \<lparr>magic = 0, version = replicate DEMO_VERSION_STR_LEN CHR 0x00,
     data = replicate DEMO_DATA_SIZE 0\<rparr>"

definition reader_main :: "sysfs_files \<Rightarrow> (int option \<times> file_res rev list) outcome" where
  \<comment> \<open>the exit status; \<open>None\<close> is the non-zero value that \<open>memcmp\<close> returns for a difference\<close>
  "reader_main f = bind_outcome (read_entity f zero_entity) (\<lambda>(ret, en, t).
     Running (if ret \<noteq> 0 then Some ret else if en = entity_template then Some 0 else None, t))"

section \<open>The file system between module and reader\<close>

definition group_path :: "attribute_group \<Rightarrow> string \<Rightarrow> string" where
  \<comment> \<open>where sysfs puts an attribute of the device\<close>
  "group_path g name = ''/sys/devices/'' @ DEMO_ROOT_DEV_NAME @ ''/'' @ DEMO_DEV_NAME @ ''/'' @
     (case group_dir g of None \<Rightarrow> [] | Some d \<Rightarrow> d @ ''/'') @ name"

definition text_file :: "sysfs_state \<Rightarrow> string \<Rightarrow> string option" where
  "text_file s path = (if \<not> online s then None else case entity_dev s of None \<Rightarrow> None
     | Some en \<Rightarrow> Option.bind (List.find (\<lambda>a. group_path root_attr_group a = path) (attrs root_attr_group))
         (\<lambda>a. entity_show a en))"

definition data_file :: "sysfs_state \<Rightarrow> string \<Rightarrow> u8 list option" where
  "data_file s path = (if \<not> online s then None else case entity_dev s of None \<Rightarrow> None
     | Some en \<Rightarrow> Option.bind (List.find (\<lambda>a. group_path root_attr_group a = path) (bin_attrs root_attr_group))
         (\<lambda>_. Some (bin_attr_data en)))"

definition SYSFS_DIR :: string where
  "SYSFS_DIR = ''/sys/devices/'' @ DEMO_ROOT_DEV_NAME @ ''/'' @ DEMO_DEV_NAME"

definition published :: "sysfs_state \<Rightarrow> int \<Rightarrow> sysfs_files" where
  \<comment> \<open>what the reader finds at its paths; \<open>fd\<close> is the descriptor \<open>open\<close> gives for a file that exists\<close>
  "published s fd = \<lparr>magic_file = text_file s (SYSFS_DIR @ ''/magic''), version_file = text_file s (SYSFS_DIR @ ''/version''),
     data_fd = (if data_file s (SYSFS_DIR @ ''/data'') = None then - 1 else fd),
     data_read = data_file s (SYSFS_DIR @ ''/data'')\<rparr>"

lemma published_online:
  assumes "online s" "entity_dev s = Some en"
  shows "published s fd = \<lparr>magic_file = Some (magic_show en), version_file = Some (version_show en),
    data_fd = fd, data_read = Some (bin_attr_data en)\<rparr>"
  using assms by (simp add: published_def text_file_def data_file_def group_path_def SYSFS_DIR_def root_attr_group_def
      root_attrs_def root_bin_attrs_def entity_show_def)

lemma published_offline: "\<not> online s \<Longrightarrow> published s fd = \<lparr>magic_file = None, version_file = None, data_fd = - 1, data_read = None\<rparr>"
  by (simp add: published_def text_file_def data_file_def)

section \<open>Lemmas\<close>

lemma c_str_pad: "\<forall>c \<in> set v. c \<noteq> CHR 0x00 \<Longrightarrow> length v < DEMO_VERSION_STR_LEN \<Longrightarrow> c_str (pad_version v) = v"
proof -
  assume v: "\<forall>c \<in> set v. c \<noteq> CHR 0x00" "length v < DEMO_VERSION_STR_LEN"
  then obtain n where "DEMO_VERSION_STR_LEN - length v = Suc n" by (metis Suc_diff_Suc)
  then show ?thesis using v(1) c_str_no_nul [of v] by (auto simp: pad_version_def)
qed

lemma scan_word_id:
  assumes "v \<noteq> []" "\<forall>c \<in> set v. \<not> c_isspace c"
  shows "scan_word v = Some v"
proof -
  have "takeWhile (\<lambda>c. \<not> c_isspace c) v = v" using assms(2) by (simp add: takeWhile_eq_all_conv)
  then show ?thesis using assms(1) ltrim_id [OF assms(2)] by (simp only: scan_word_def Let_def if_False)
qed

lemma store_version_pad:
  "length v < DEMO_VERSION_STR_LEN \<Longrightarrow>
    store_version v (replicate DEMO_VERSION_STR_LEN CHR 0x00) = Running (pad_version v)"
  by (simp add: store_version_def pad_version_def flip: replicate_Suc)

lemma read_ascii_published:
  assumes "entity_ok en" "magic_file f = Some (magic_show en)" "version_file f = Some (version_show en)"
  shows "\<exists>t. read_entity_ascii f zero_entity = Running (0, en\<lparr>data := replicate DEMO_DATA_SIZE 0\<rparr>, t) \<and> balanced t"
proof -
  obtain v where v: "version en = pad_version v" "v \<noteq> []" "length v < DEMO_VERSION_STR_LEN"
    "\<forall>c \<in> set v. c \<noteq> CHR 0x00 \<and> \<not> c_isspace c"
    using assms(1) by (auto simp: entity_ok_def)
  have "unat (magic en) < 2 ^ 64" using unsigned_less [of "magic en"] by simp
  then have m: "scan_hex (magic_show en) = Some (magic en, [])"
    using scan_hex_printf by (simp add: magic_show_def)
  have w: "scan_word (version_show en) = Some v"
    using v c_str_pad [of v] scan_word_id [of v] by (simp add: version_show_def)
  show ?thesis
    using assms(2,3) m w v(1) store_version_pad [OF v(3)]
    by (simp add: read_entity_ascii_def zero_entity_def balanced_def Let_def)
qed

lemma read_published:
  assumes "entity_ok en" "fd \<noteq> - 1" "online s" "entity_dev s = Some en"
  shows "\<exists>t. read_entity (published s fd) zero_entity = Running (0, en, t) \<and> leaks t {#Fd fd#}"
proof -
  obtain t where "read_entity_ascii (published s fd) zero_entity = Running (0, en\<lparr>data := replicate DEMO_DATA_SIZE 0\<rparr>, t)"
    "balanced t"
    using read_ascii_published [OF assms(1), of "published s fd"] by (auto simp: published_online [OF assms(3,4)])
  moreover have "length (data en) = DEMO_DATA_SIZE" using assms(1) by (simp add: entity_ok_def)
  ultimately show ?thesis
    using assms(2) by (simp add: read_entity_def read_entity_binary_def published_online [OF assms(3,4)] bin_attr_data_def
        trace_eval run_trace_append Let_def)
qed

lemma reader_offline: "\<not> online s \<Longrightarrow> reader_main (published s fd) = Running (Some (- 1), [])"
  by (simp add: reader_main_def read_entity_def read_entity_ascii_def published_offline)

lemma init_puts_online:
  "demo_sysfs_init e sysfs_unloaded = (0, s, t) \<Longrightarrow> online s \<and> entity_dev s = Some entity_template"
  by (auto simp: demo_sysfs_init_def create_and_online_entity_device_def sysfs_unloaded_def split: if_splits)

lemma entity_template_ok: "entity_ok entity_template"
proof -
  have "\<forall>c \<in> set ''2025.02.26''. c \<noteq> CHR 0x00 \<and> \<not> c_isspace c" by code_simp
  then show ?thesis
    by (auto simp: entity_ok_def entity_template_def DEMO_VERSION_STR_LEN_def DEMO_DATA_SIZE_def
        intro!: exI [of _ "''2025.02.26''"])
qed

section \<open>Properties\<close>

text \<open>
  C23: what the module publishes is what the reader reads. While the device is online, for every entity
  whose version is one word of less than 32 characters, the files that the attribute groups create are found at
  the reader's paths, and reading them gives back the magic number, the version with its NUL padding and the data,
  and returns 0, with the descriptor of the binary file left open. So after a successful init the reader's exit
  status is 0, and after the module's exit, or a failed init, it is -1.
\<close>
theorem sysfs_entity_roundtrip:
  assumes "entity_ok en" and "fd \<noteq> - 1" and "online s" and "entity_dev s = Some en"
    and "demo_sysfs_init e sysfs_unloaded = (ret, s', tr)"
  shows "(\<exists>t. read_entity (published s fd) zero_entity = Running (0, en, t) \<and> leaks t {#Fd fd#}) \<and>
    (if ret = 0 then (\<exists>t. reader_main (published s' fd) = Running (Some 0, t))
     else reader_main (published s' fd) = Running (Some (- 1), [])) \<and>
    reader_main (published (fst (demo_sysfs_exit s')) fd) = Running (Some (- 1), [])"
proof -
  have "\<exists>t. reader_main (published s' fd) = Running (Some 0, t)" if zero: "ret = 0"
  proof -
    obtain t where "read_entity (published s' fd) zero_entity = Running (0, entity_template, t)"
      using read_published [OF entity_template_ok assms(2)] init_puts_online assms(5) zero by blast
    then show ?thesis by (simp add: reader_main_def)
  qed
  moreover have "\<not> online s'" if "ret \<noteq> 0"
    using assms(5) that by (auto simp: demo_sysfs_init_def create_and_online_entity_device_def sysfs_unloaded_def split: if_splits)
  moreover have "\<not> online (fst (demo_sysfs_exit s'))" by (simp add: demo_sysfs_exit_def offline_entity_device_def)
  ultimately show ?thesis
    using read_published [OF assms(1-4)] reader_offline [of s' fd] reader_offline [of "fst (demo_sysfs_exit s')" fd] by simp
qed

text \<open>
  C22: loading and unloading the module. After a successful init, exit releases everything that was
  registered and allocated and gives back the state of an unloaded module; a failed init has done so
  itself, except that after a failed \<open>device_add\<close> the device's name is never freed, because the memory is
  released with \<open>kfree\<close> and not with \<open>put_device\<close>.
\<close>
theorem sysfs_load_unload:
  "case demo_sysfs_init e sysfs_unloaded of (ret, s, t) \<Rightarrow>
    if ret = 0 then entity_dev s = Some entity_template \<and> online s \<and>
      (case demo_sysfs_exit s of (s', t') \<Rightarrow> \<not> root_dev s' \<and> \<not> online s' \<and> balanced (t @ t'))
    else s = sysfs_unloaded \<and>
      (if root_ok e \<and> kzalloc_ok e \<and> set_name_ret e = 0 then leaks t {#Device_name#} else balanced t)"
  by (simp add: demo_sysfs_init_def create_and_online_entity_device_def demo_sysfs_exit_def
      offline_entity_device_def put_device_def release_entity_device_def sysfs_unloaded_def trace_eval)

text \<open>A failed read of the binary file is not reported: \<open>read_entity\<close> returns 0 with zeros for data.\<close>
theorem sysfs_binary_failure_ignored:
  assumes "online s" "entity_dev s = Some entity_template"
  shows "\<exists>t. read_entity ((published s 3)\<lparr>data_read := None\<rparr>) zero_entity =
    Running (0, entity_template\<lparr>data := replicate DEMO_DATA_SIZE 0\<rparr>, t)"
proof -
  let ?f = "(published s 3)\<lparr>data_read := None\<rparr>"
  obtain t where "read_entity_ascii ?f zero_entity = Running (0, entity_template\<lparr>data := replicate DEMO_DATA_SIZE 0\<rparr>, t)"
    using read_ascii_published [OF entity_template_ok, of ?f] by (auto simp: published_online [OF assms])
  then show ?thesis
    by (simp add: read_entity_def read_entity_binary_def published_online [OF assms] Let_def)
qed

definition demo_online :: sysfs_state where
  "demo_online = \<lparr>root_dev = True, entity_dev = Some entity_template, online = True\<rparr>"

theorem sysfs_entity_roundtrip_witness:
  "(\<exists>t. read_entity (published demo_online 3) zero_entity = Running (0, entity_template, t) \<and> leaks t {#Fd 3#}) \<and>
   reader_main (published sysfs_unloaded 3) = Running (Some (- 1), [])"
proof -
  let ?e = "\<lparr>root_ok = False, kzalloc_ok = True, set_name_ret = 0, device_add_ret = 0\<rparr>"
  have "online demo_online" "entity_dev demo_online = Some entity_template" by (simp_all add: demo_online_def)
  moreover have "demo_sysfs_init ?e sysfs_unloaded = (- EPERM, sysfs_unloaded, [])"
    by (simp add: demo_sysfs_init_def sysfs_unloaded_def)
  ultimately show ?thesis using sysfs_entity_roundtrip [OF entity_template_ok, of 3 demo_online ?e] by simp
qed

end
