(* ===== verification/Klog.thy ===== *)
theory Klog
  imports Machine
begin

text \<open>
  The kernel log demo \<open>linux-c/klog-demo.c\<close>. \<open>klog_read_new\<close> keeps two static buffers: it reads the
  whole log into one, finds the last line of the previous round (kept in the other) and prints what comes
  after it. The buffers, the pointer into the old one and the lengths are the state \<open>klog\<close>; what
  \<open>klogctl\<close> reads is an argument. A read outside of the buffers is \<open>Crashed\<close>.
\<close>

section \<open>State\<close>

definition BUF_SIZE :: nat where "BUF_SIZE = 512"

record klog =
  next_buf :: string           \<comment> \<open>the buffer to be filled next\<close>
  old_buf :: string            \<comment> \<open>the one \<open>last_line\<close> points into\<close>
  last_line :: nat             \<comment> \<open>its offset there\<close>
  last_line_length :: nat

definition klog_start :: klog where
  "klog_start = \<lparr>next_buf = replicate BUF_SIZE CHR 0x00, old_buf = replicate BUF_SIZE CHR 0x00,
     last_line = 0, last_line_length = 0\<rparr>"

section \<open>Reading what is new\<close>

text \<open>The inner loop \<open>for (j = 0; j < last_line_length && match; j++)\<close>: \<open>None\<close> is a read past the
  buffer.\<close>

fun match_at :: "string \<Rightarrow> string \<Rightarrow> bool option" where
  \<comment> \<open>the rest of \<open>next_buf\<close> from \<open>i + j\<close>, the rest of the last line from \<open>j\<close>\<close>
  "match_at buf [] = Some True"
| "match_at [] (l # ls) = None"
| "match_at (b # bs) (l # ls) = (if b = l then match_at bs ls else Some False)"

text \<open>The outer loop; \<open>n\<close> is how many of the \<open>next_length\<close> positions are left. \<open>Some None\<close>: no match.\<close>

fun find_line :: "nat \<Rightarrow> nat \<Rightarrow> string \<Rightarrow> string \<Rightarrow> nat option option" where
  "find_line 0 i buf line = Some None"
| "find_line (Suc n) i buf line = (case match_at (drop i buf) line of
     None \<Rightarrow> None
   | Some True \<Rightarrow> Some (Some (i + length line))
   | Some False \<Rightarrow> find_line n (i + 1) buf line)"

text \<open>\<open>while (last_line != start_line && *(last_line - 1) != '\n') last_line--\<close>.\<close>

fun line_start :: "string \<Rightarrow> nat \<Rightarrow> nat \<Rightarrow> nat option" where
  "line_start buf start 0 = (if start = 0 then Some 0 else None)"
| "line_start buf start (Suc p) =
     (if Suc p = start then Some (Suc p)
      else if buf ! p = CHR 0x0A then Some (Suc p) else line_start buf start p)"

definition klog_read_new :: "string option \<Rightarrow> klog \<Rightarrow> (int \<times> string \<times> klog) outcome" where
  \<comment> \<open>return value, the new log lines written, the new state; \<open>None\<close>: \<open>klogctl\<close> fails\<close>
  "klog_read_new log s = (case log of
     None \<Rightarrow> Running (- 1, [], s)
   | Some bytes \<Rightarrow>
       let buf = bytes @ drop (length bytes) (next_buf s);
           next_length = length bytes;
           line = take (last_line_length s) (drop (last_line s) (old_buf s));
           found = (if last_line_length s = 0 then Some (Some 0) else find_line next_length 0 buf line) in
       (case found of
          None \<Rightarrow> Crashed
        | Some m \<Rightarrow>
            let start = (case m of None \<Rightarrow> 0 | Some p \<Rightarrow> p) in
            if CHR 0x00 \<notin> set (drop start buf) then Crashed
            else let new = c_str (drop start buf) in
              if new = [] then Running (0, [], \<lparr>next_buf = old_buf s, old_buf = buf, last_line = 0, last_line_length = 0\<rparr>)
              else if next_length = 0 then Crashed
              else (case line_start buf start (next_length - 1) of
                None \<Rightarrow> Crashed
              | Some p \<Rightarrow> Running (0, new, \<lparr>next_buf = old_buf s, old_buf = buf, last_line = p,
                  last_line_length = next_length - p\<rparr>))))"

section \<open>The other calls\<close>

definition write_kmesg :: "bool \<Rightarrow> int" where
  \<comment> \<open>whether \<open>/dev/kmsg\<close> can be opened\<close>
  "write_kmesg opened = (if opened then 0 else - 1)"

definition klog_clear :: "int \<Rightarrow> int" where "klog_clear ctl = ctl"

definition klog_unread_demo :: "bool \<Rightarrow> int \<Rightarrow> int \<Rightarrow> int" where
  \<comment> \<open>\<open>ret |= ...\<close> of 0, -1 and a non-negative count\<close>
  "klog_unread_demo opened unread clear =
     (let ret = Bit_Operations.or (write_kmesg opened) unread in if ret = - 1 then - 1 else klog_clear clear)"

definition klog_read_all_repeated :: "bool \<Rightarrow> string option \<Rightarrow> string option \<Rightarrow> int" where
  "klog_read_all_repeated opened r1 r2 =
     (if write_kmesg opened \<noteq> 0 then - 1
      else case (r1, r2) of (Some b1, Some b2) \<Rightarrow>
          if length b1 \<noteq> length b2 \<or> c_str b1 \<noteq> c_str b2 then - 1 else 0
        | _ \<Rightarrow> - 1)"

definition klog_read_clear_demo :: "bool \<Rightarrow> bool \<Rightarrow> string option \<Rightarrow> string option \<Rightarrow> int \<Rightarrow> int" where
  "klog_read_clear_demo opened1 opened2 r1 r2 clear =
     (if write_kmesg opened1 \<noteq> 0 \<or> write_kmesg opened2 \<noteq> 0 then - 1
      else case (r1, r2) of (Some b1, Some b2) \<Rightarrow>
          if length b1 = 0 \<or> length b2 \<noteq> 0 then - 1 else klog_clear clear
        | _ \<Rightarrow> - 1)"

fun klog_main :: "int list \<Rightarrow> int \<times> nat" where
  \<comment> \<open>\<open>return a () || b () || ...\<close>: what the demos would return; the exit status and how many of them run\<close>
  "klog_main [] = (0, 0)"
| "klog_main (r # rs) = (if r \<noteq> 0 then (1, 1) else case klog_main rs of (status, n) \<Rightarrow> (status, n + 1))"

section \<open>Lemmas\<close>

lemma match_at_iff: "length line \<le> length buf \<Longrightarrow> match_at buf line = Some (take (length line) buf = line)"
  by (induction buf line rule: match_at.induct) auto

lemma find_line_first:
  assumes "take (length line) (drop p buf) = line" "p + length line \<le> length buf"
  shows "i \<le> p \<Longrightarrow> p < i + n \<Longrightarrow> (\<And>j. i \<le> j \<Longrightarrow> j < p \<Longrightarrow> take (length line) (drop j buf) \<noteq> line) \<Longrightarrow>
    find_line n i buf line = Some (Some (p + length line))"
proof (induction n arbitrary: i)
  case (Suc n)
  have m: "match_at (drop i buf) line = Some (take (length line) (drop i buf) = line)"
    using assms(2) Suc.prems(1) by (intro match_at_iff) simp
  show ?case
  proof (cases "i = p")
    case True
    then show ?thesis using m assms(1) by simp
  next
    case False
    then have "take (length line) (drop i buf) \<noteq> line" using Suc.prems by auto
    then show ?thesis using m Suc.IH [of "i + 1"] Suc.prems False by simp
  qed
qed simp

lemma line_start_back:
  "(\<And>j. q \<le> j \<Longrightarrow> j < q + k \<Longrightarrow> buf ! j \<noteq> CHR 0x0A) \<Longrightarrow> start \<le> q \<Longrightarrow> q = start \<or> 0 < q \<and> buf ! (q - 1) = CHR 0x0A \<Longrightarrow>
    line_start buf start (q + k) = Some q"
proof (induction k)
  case 0
  then show ?case by (cases q) auto
next
  case (Suc k)
  then show ?case by simp
qed

definition last_line_of :: "string \<Rightarrow> string" where
  "last_line_of l = rev (takeWhile (\<lambda>c. c \<noteq> CHR 0x0A) (rev (butlast l))) @ [last l]"

lemma last_line_split:
  assumes "l \<noteq> []"
  obtains front body where "l = front @ body @ [last l]" "last_line_of l = body @ [last l]" "CHR 0x0A \<notin> set body"
    "front = [] \<or> last front = CHR 0x0A"
proof -
  let ?r = "rev (butlast l)" let ?P = "\<lambda>c. c \<noteq> CHR 0x0A"
  let ?front = "rev (dropWhile ?P ?r)" let ?body = "rev (takeWhile ?P ?r)"
  have "butlast l = ?front @ ?body"
    by (metis rev_append rev_rev_ident takeWhile_dropWhile_id)
  then have "l = (?front @ ?body) @ [last l]"
    using append_butlast_last_id [OF assms] by metis
  then have "l = ?front @ ?body @ [last l]" by (simp only: append_assoc)
  moreover have "CHR 0x0A \<notin> set ?body"
    by (auto dest: set_takeWhileD)
  moreover have "?front = [] \<or> last ?front = CHR 0x0A"
  proof (cases "dropWhile ?P ?r")
    case (Cons y ys)
    then have "\<not> ?P y" using hd_dropWhile [of ?P ?r] by simp
    with Cons show ?thesis by simp
  qed simp
  ultimately show thesis using that by (simp add: last_line_of_def)
qed

definition tail_clear :: "string \<Rightarrow> nat \<Rightarrow> bool" where
  "tail_clear buf n \<longleftrightarrow> length buf = BUF_SIZE \<and> (\<forall>k < BUF_SIZE. n \<le> k \<longrightarrow> buf ! k = CHR 0x00)"

definition log_text :: "string \<Rightarrow> bool" where
  "log_text l \<longleftrightarrow> l \<noteq> [] \<and> last l = CHR 0x0A \<and> CHR 0x00 \<notin> set l"

definition after_line :: "string \<Rightarrow> string \<Rightarrow> string" where
  \<comment> \<open>what follows the first occurrence of the line in the log\<close>
  "after_line line b = (case List.find (\<lambda>p. take (length line) (drop p b) = line) [0..<Suc (length b)] of
     None \<Rightarrow> b | Some p \<Rightarrow> drop (p + length line) b)"

definition knows :: "bool \<Rightarrow> klog \<Rightarrow> string \<Rightarrow> bool" where
  \<comment> \<open>the state after a round in which the log was \<open>l\<close>; \<open>forgot\<close>: there is no last line to look for\<close>
  "knows forgot s l \<longleftrightarrow> tail_clear (next_buf s) (length l) \<and> tail_clear (old_buf s) (length l) \<and>
     (if forgot then last_line_length s = 0
      else log_text l \<and> last_line_length s = length (last_line_of l) \<and>
        take (last_line_length s) (drop (last_line s) (old_buf s)) = last_line_of l)"

lemma knows_start: "knows True klog_start []"
  by (simp add: knows_def klog_start_def tail_clear_def)

lemma log_text_append: "l = [] \<or> log_text l \<Longrightarrow> n = [] \<or> log_text n \<Longrightarrow> l @ n = [] \<or> log_text (l @ n)"
  by (auto simp: log_text_def)

lemma last_line_ends: "log_text l \<Longrightarrow> last_line_of l \<noteq> [] \<and> last (last_line_of l) = CHR 0x0A"
  by (simp add: last_line_of_def log_text_def)

lemma after_line_first:
  assumes "take (length line) (drop q b) = line" "q + length line \<le> length b"
  shows "\<exists>p \<le> q. take (length line) (drop p b) = line \<and> after_line line b = drop (p + length line) b \<and>
    (\<forall>j < p. take (length line) (drop j b) \<noteq> line)"
proof -
  let ?P = "\<lambda>p. take (length line) (drop p b) = line"
  have "?P q" "q < Suc (length b)" using assms by auto
  then have "List.find ?P [0..<Suc (length b)] \<noteq> None" by (auto simp: find_None_iff simp del: upt_Suc)
  then obtain p where p: "List.find ?P [0..<Suc (length b)] = Some p" by blast
  then have "?P p" "\<forall>j < p. \<not> ?P j" by (auto simp: find_Some_iff simp del: upt_Suc)
  then show ?thesis using p \<open>?P q\<close> by (intro exI [of _ p]) (auto simp: after_line_def not_less [symmetric] simp del: upt_Suc)
qed

lemma knows_finds:
  assumes "knows False s l" "b = l @ new"
  shows "\<exists>start. find_line (length b) 0 (b @ rest) (take (last_line_length s) (drop (last_line s) (old_buf s))) = Some (Some start) \<and>
    last_line_length s \<noteq> 0 \<and> after_line (last_line_of l) b = drop start b \<and>
    0 < start \<and> start \<le> length b \<and> b ! (start - 1) = CHR 0x0A"
proof -
  let ?line = "last_line_of l"
  have l: "log_text l" and line: "take (last_line_length s) (drop (last_line s) (old_buf s)) = ?line"
    "last_line_length s = length ?line" using assms(1) unfolding knows_def if_False by blast+
  obtain front body where split: "l = front @ body @ [last l]" "?line = body @ [last l]"
    using l last_line_split by (metis log_text_def)
  let ?q = "length front"
  have len: "?q + length ?line = length l" using split by (metis length_append)
  have "take (length ?line) (drop ?q b) = ?line" using split assms(2) by (metis append_assoc append_eq_conv_conj)
  from after_line_first [OF this] obtain p where p: "p \<le> ?q" "take (length ?line) (drop p b) = ?line"
    "after_line ?line b = drop (p + length ?line) b" "\<forall>j < p. take (length ?line) (drop j b) \<noteq> ?line"
    using len assms(2) by auto
  have le: "p + length ?line \<le> length b" using p(1) len assms(2) by simp
  have pos: "0 < length ?line" using last_line_ends [OF l] by simp
  have same: "take (length ?line) (drop j (b @ rest)) = take (length ?line) (drop j b)" if "j \<le> p" for j
    using that le by simp
  have "find_line (length b) 0 (b @ rest) ?line = Some (Some (p + length ?line))"
    using p(2,4) same le pos by (intro find_line_first) (simp_all del: length_greater_0_conv)
  moreover have "b ! (p + length ?line - 1) = CHR 0x0A"
  proof -
    have "?line ! (length ?line - 1) = CHR 0x0A" using last_line_ends [OF l] by (metis last_conv_nth)
    moreover have "?line ! (length ?line - 1) = b ! (p + (length ?line - 1))"
      using p(2) le last_line_ends [OF l] by (metis add_leD1 diff_less length_greater_0_conv nth_drop nth_take zero_less_one)
    ultimately show ?thesis using last_line_ends [OF l] by (simp add: Suc_le_eq)
  qed
  ultimately show ?thesis
    using line p(3) le last_line_ends [OF l] by (intro exI [of _ "p + length ?line"]) auto
qed

lemma nth_clear_tail:
  assumes "tail_clear buf n" "n \<le> length b" "length b < BUF_SIZE"
  shows "\<exists>r. b @ drop (length b) buf = b @ CHR 0x00 # r \<and> tail_clear (b @ drop (length b) buf) (length b)"
proof -
  have "drop (length b) buf = buf ! length b # drop (Suc (length b)) buf"
    using assms Cons_nth_drop_Suc [of "length b" buf] by (simp only: tail_clear_def)
  moreover have "buf ! length b = CHR 0x00" using assms by (simp add: tail_clear_def)
  moreover have "tail_clear (b @ drop (length b) buf) (length b)"
    using assms by (auto simp: tail_clear_def nth_append)
  ultimately show ?thesis by auto
qed

lemma tail_clear_mono: "tail_clear buf n \<Longrightarrow> n \<le> m \<Longrightarrow> tail_clear buf m"
  by (auto simp: tail_clear_def)

lemma line_start_found:
  assumes "log_text b" "take (length b) buf = b" "length b \<le> length buf"
    and "start < length b" "start = 0 \<or> b ! (start - 1) = CHR 0x0A"
  shows "line_start buf start (length b - 1) = Some (length b - length (last_line_of b))"
proof -
  obtain front body where n: "b = front @ body @ [last b]" "last_line_of b = body @ [last b]"
    "CHR 0x0A \<notin> set body" "front = [] \<or> last front = CHR 0x0A"
    using assms(1) last_line_split by (metis log_text_def)
  have len: "length b = length front + length body + 1" using n(1) by (metis length_append length_append_singleton add.assoc Suc_eq_plus1 append_assoc)
  have at: "buf ! j = b ! j" if "j < length b" for j using assms(2) that by (metis nth_take)
  have body: "b ! (length front + i) = body ! i" if "i < length body" for i
    using that n(1) by (metis nth_append nth_append_length_plus)
  have "start \<le> length front"
  proof (rule ccontr)
    assume "\<not> start \<le> length front"
    then have i: "start - 1 = length front + (start - 1 - length front)" "start - 1 - length front < length body" "start \<noteq> 0"
      using assms(4) len by auto
    then have "b ! (start - 1) = body ! (start - 1 - length front)" using body [OF i(2)] by (simp only: i(1) [symmetric])
    then show False using assms(5) i(2,3) n(3) nth_mem by metis
  qed
  moreover have "buf ! j \<noteq> CHR 0x0A" if j: "length front \<le> j" "j < length front + length body" for j
  proof -
    have i: "j = length front + (j - length front)" "j - length front < length body" using j by auto
    have "buf ! j = body ! (j - length front)" using at [of j] body [OF i(2)] j len by (simp only: i(1) [symmetric])
    then show ?thesis using n(3) i(2) nth_mem by metis
  qed
  moreover have "length front = start \<or> 0 < length front \<and> buf ! (length front - 1) = CHR 0x0A"
  proof (cases "front = []")
    case True
    then show ?thesis using \<open>start \<le> length front\<close> by simp
  next
    case False
    then have "buf ! (length front - 1) = front ! (length front - 1)"
      using at [of "length front - 1"] len n(1) by (metis (no_types, lifting) diff_less length_greater_0_conv less_imp_diff_less
          less_add_one nth_append trans_less_add1 zero_less_one)
    then show ?thesis using False n(4) by (simp add: last_conv_nth)
  qed
  ultimately have "line_start buf start (length front + length body) = Some (length front)"
    by (intro line_start_back) auto
  then show ?thesis using len n(2) by simp
qed

lemma last_line_drop:
  "log_text b \<Longrightarrow> drop (length b - length (last_line_of b)) b = last_line_of b \<and> length (last_line_of b) \<le> length b"
  by (metis append_assoc append_eq_conv_conj diff_add_inverse2 last_line_split le_add2 length_append log_text_def)

lemma klog_round:
  assumes s: "knows forgot s l" and l: "l = [] \<or> log_text l" and n: "new = [] \<or> log_text new"
    and b: "b = l @ new" "length b < BUF_SIZE" and out: "out = (if forgot then b else after_line (last_line_of l) b)"
  shows "\<exists>s'. klog_read_new (Some b) s = Running (0, out, s') \<and> knows (out = []) s' b"
proof -
  let ?buf = "b @ drop (length b) (next_buf s)"
  obtain r where r: "?buf = b @ CHR 0x00 # r" and clear: "tail_clear ?buf (length b)"
    using nth_clear_tail [of "next_buf s" "length l" b] s b by (auto simp: knows_def)
  have btext: "b = [] \<or> log_text b" using log_text_append [OF l n] by (simp add: b(1))
  obtain start where start: "(if last_line_length s = 0 then Some (Some 0)
      else find_line (length b) 0 ?buf (take (last_line_length s) (drop (last_line s) (old_buf s)))) = Some (Some start)"
    "out = drop start b" "start \<le> length b" "start = 0 \<or> b ! (start - 1) = CHR 0x0A"
  proof (cases forgot)
    case True
    then show thesis using s out by (intro that [of 0]) (simp_all add: knows_def)
  next
    case False
    then have "knows False s l" using s by simp
    from knows_finds [OF this b(1), of "drop (length b) (next_buf s)"] False show thesis
      using out that by auto
  qed
  have drop: "drop start ?buf = out @ CHR 0x00 # r" using r start(2,3) by simp
  have nul: "CHR 0x00 \<notin> set out" using btext start(2) by (auto simp: log_text_def dest: in_set_dropD)
  then have str: "c_str (out @ CHR 0x00 # r) = out" by (rule c_str_no_nul)
  have old: "tail_clear (old_buf s) (length b)" using s b(1) by (auto simp: knows_def intro: tail_clear_mono)
  show ?thesis
  proof (cases "out = []")
    case True
    have "klog_read_new (Some b) s = Running (0, [], \<lparr>next_buf = old_buf s, old_buf = ?buf, last_line = 0, last_line_length = 0\<rparr>)"
      by (simp only: klog_read_new_def Let_def option.case start(1) drop str) (simp add: True)
    then show ?thesis using True old clear by (simp add: knows_def)
  next
    case False
    then have lt: "log_text b" and less: "start < length b" using btext start(2,3) by (auto simp: not_less)
    let ?p = "length b - length (last_line_of b)"
    have ls: "line_start ?buf start (length b - 1) = Some ?p"
      by (rule line_start_found [OF lt _ _ less start(4)]) simp_all
    have lined: "drop ?p b = last_line_of b" "length (last_line_of b) \<le> length b" using last_line_drop [OF lt] by simp_all
    then have line: "take (length b - ?p) (drop ?p ?buf) = last_line_of b" by simp
    let ?s' = "\<lparr>next_buf = old_buf s, old_buf = ?buf, last_line = ?p, last_line_length = length b - ?p\<rparr>"
    have "klog_read_new (Some b) s = Running (0, out, ?s')"
      by (simp only: klog_read_new_def Let_def option.case start(1) drop str ls) (use False lt in \<open>simp add: log_text_def\<close>)
    moreover have "knows False ?s' b" using old clear line lined lt by (simp add: knows_def)
    ultimately show ?thesis using False by simp
  qed
qed

text \<open>A run of several rounds: the return values, what each round prints, and the final state.\<close>

fun klog_rounds :: "string list \<Rightarrow> klog \<Rightarrow> ((int \<times> string) list \<times> klog) outcome" where
  "klog_rounds [] s = Running ([], s)"
| "klog_rounds (log # logs) s = bind_outcome (klog_read_new (Some log) s) (\<lambda>(ret, new, s1).
     bind_outcome (klog_rounds logs s1) (\<lambda>(rs, s2). Running ((ret, new) # rs, s2)))"

text \<open>The log as it grows by each of the given texts, and what the rounds print: what follows the first
  occurrence of the previous round's last line; the whole log, if the previous round printed nothing.\<close>

fun growing :: "string \<Rightarrow> string list \<Rightarrow> string list" where
  "growing l [] = []"
| "growing l (n # ns) = (l @ n) # growing (l @ n) ns"

fun rounds_output :: "bool \<Rightarrow> string \<Rightarrow> string list \<Rightarrow> string list" where
  "rounds_output forgot l [] = []"
| "rounds_output forgot l (n # ns) =
     (let out = (if forgot then l @ n else after_line (last_line_of l) (l @ n))
      in out # rounds_output (out = []) (l @ n) ns)"

definition lines_or_nothing :: "string list \<Rightarrow> bool" where
  "lines_or_nothing ns \<longleftrightarrow> list_all (\<lambda>n. n = [] \<or> log_text n) ns"

text \<open>Additions that are never empty and never push the last line of the log to a second occurrence.\<close>

fun last_lines_unique :: "string \<Rightarrow> string list \<Rightarrow> bool" where
  "last_lines_unique l [] = True"
| "last_lines_unique l (n # ns) \<longleftrightarrow> n \<noteq> [] \<and>
     (l = [] \<or> (\<forall>i < length l - length (last_line_of l).
        take (length (last_line_of l)) (drop i (l @ n)) \<noteq> last_line_of l)) \<and> last_lines_unique (l @ n) ns"

lemma klog_rounds_growing:
  "knows forgot s l \<Longrightarrow> l = [] \<or> log_text l \<Longrightarrow> lines_or_nothing ns \<Longrightarrow> length (l @ concat ns) < BUF_SIZE \<Longrightarrow>
    \<exists>s'. klog_rounds (growing l ns) s = Running (map (\<lambda>out. (0, out)) (rounds_output forgot l ns), s')"
proof (induction ns arbitrary: l s forgot)
  case (Cons n ns)
  let ?out = "if forgot then l @ n else after_line (last_line_of l) (l @ n)"
  have n: "n = [] \<or> log_text n" using Cons.prems(3) by (simp add: lines_or_nothing_def)
  from klog_round [OF Cons.prems(1,2) n refl _ refl] Cons.prems(4) obtain s1 where
    s1: "klog_read_new (Some (l @ n)) s = Running (0, ?out, s1)" "knows (?out = []) s1 (l @ n)" by auto
  have "lines_or_nothing ns" "length ((l @ n) @ concat ns) < BUF_SIZE"
    using Cons.prems(3,4) by (simp_all add: lines_or_nothing_def)
  from Cons.IH [OF s1(2) log_text_append [OF Cons.prems(2) n] this] s1(1) show ?case by (auto simp: Let_def)
qed simp

lemma after_last_line:
  assumes "log_text l" "\<forall>i < length l - length (last_line_of l). take (length (last_line_of l)) (drop i (l @ n)) \<noteq> last_line_of l"
  shows "after_line (last_line_of l) (l @ n) = n"
proof -
  let ?line = "last_line_of l" let ?q = "length l - length (last_line_of l)"
  have d: "drop ?q l = ?line" "length ?line \<le> length l" using last_line_drop [OF assms(1)] by simp_all
  then have "take (length ?line) (drop ?q (l @ n)) = ?line" "?q + length ?line \<le> length (l @ n)" by simp_all
  from after_line_first [OF this] obtain p where p: "p \<le> ?q" "take (length ?line) (drop p (l @ n)) = ?line"
    "after_line ?line (l @ n) = drop (p + length ?line) (l @ n)" by blast
  then have "p = ?q" using assms(2) by (metis le_neq_implies_less)
  then show ?thesis using p(3) d(2) by simp
qed

lemma rounds_output_unique:
  "lines_or_nothing ns \<Longrightarrow> last_lines_unique l ns \<Longrightarrow> (if forgot then l = [] else log_text l) \<Longrightarrow>
     rounds_output forgot l ns = ns"
proof (induction ns arbitrary: l forgot)
  case (Cons n ns)
  have n: "log_text n" "n \<noteq> []" using Cons.prems(1,2) by (auto simp: lines_or_nothing_def)
  have "(if forgot then l @ n else after_line (last_line_of l) (l @ n)) = n"
    using Cons.prems(2,3) after_last_line [of l n] by (auto simp: log_text_def split: if_splits)
  moreover have "l = [] \<or> log_text l" using Cons.prems(3) by (cases forgot) simp_all
  then have "log_text (l @ n)" using log_text_append [of l n] n by auto
  ultimately show ?case using Cons.IH [of "l @ n" False] Cons.prems(1,2) n by (simp add: Let_def lines_or_nothing_def)
qed simp

section \<open>Properties\<close>

text \<open>
  C12: what the rounds of \<open>klog_read_new\<close> print. Let the log grow by any texts, each empty or made of lines without
  NUL, while it stays shorter than the buffer of 512 bytes. Then no round reads outside of the buffers, every
  round returns 0, and it prints what follows the first occurrence of the last line of the round before; a round
  after one that had nothing to print repeats the whole log. So as long as every addition is non-empty and the last
  line never occurred before in the log, each round prints exactly the addition.
\<close>
theorem klog_read_new_incremental:
  assumes "lines_or_nothing ns" "length (concat ns) < BUF_SIZE"
  shows "(\<exists>s. klog_rounds (growing [] ns) klog_start = Running (map (\<lambda>out. (0, out)) (rounds_output True [] ns), s)) \<and>
    (last_lines_unique [] ns \<longrightarrow> rounds_output True [] ns = ns)"
  using klog_rounds_growing [OF knows_start _ assms(1)] rounds_output_unique [OF assms(1), of "[]" True] assms(2) by simp

section \<open>Witnesses\<close>

definition demo_log :: "string list" where
  "demo_log = [''log1'' @ [CHR 0x0A], ''log2'' @ [CHR 0x0A], ''log3'' @ [CHR 0x0A] @ ''log4'' @ [CHR 0x0A]]"

lemma demo_log_ok: "lines_or_nothing demo_log" "length (concat demo_log) < BUF_SIZE" "last_lines_unique [] demo_log"
  "lines_or_nothing [''a'' @ [CHR 0x0A], [], ''b'' @ [CHR 0x0A]]"
  "length (concat [''a'' @ [CHR 0x0A], [], ''b'' @ [CHR 0x0A]]) < BUF_SIZE"
  by code_simp+

theorem klog_read_new_incremental_witness:
  "(\<exists>s. klog_rounds (growing [] demo_log) klog_start = Running (map (\<lambda>n. (0, n)) demo_log, s)) \<and>
   (\<exists>s. klog_rounds (growing [] [''a'' @ [CHR 0x0A], [], ''b'' @ [CHR 0x0A]]) klog_start =
      Running ([(0, ''a'' @ [CHR 0x0A]), (0, []), (0, ''a'' @ [CHR 0x0A] @ ''b'' @ [CHR 0x0A])], s))"
proof -
  have "rounds_output True [] [''a'' @ [CHR 0x0A], [], ''b'' @ [CHR 0x0A]] =
      [''a'' @ [CHR 0x0A], [], ''a'' @ [CHR 0x0A] @ ''b'' @ [CHR 0x0A]]"
    by code_simp
  with klog_read_new_incremental [OF demo_log_ok(4,5)]
  have second: "\<exists>s. klog_rounds (growing [] [''a'' @ [CHR 0x0A], [], ''b'' @ [CHR 0x0A]]) klog_start =
      Running ([(0, ''a'' @ [CHR 0x0A]), (0, []), (0, ''a'' @ [CHR 0x0A] @ ''b'' @ [CHR 0x0A])], s)"
    by (simp only: list.map)
  have "rounds_output True [] demo_log = demo_log"
    using klog_read_new_incremental [OF demo_log_ok(1,2)] demo_log_ok(3) by blast
  with klog_read_new_incremental [OF demo_log_ok(1,2)]
  have "\<exists>s. klog_rounds (growing [] demo_log) klog_start = Running (map (\<lambda>n. (0, n)) demo_log, s)" by (simp only:)
  with second show ?thesis by blast
qed

end
