(* ===== verification/PosixSem.thy ===== *)
theory PosixSem
  imports Machine
begin

text \<open>
  The POSIX semaphore demos \<open>linux-c/semaphore\<close>. \<open>semaphore-utils.h\<close> wraps the system calls so that a
  failure ends the process with \<open>errno\<close>; \<open>named-semaphore.c\<close> runs one command; \<open>unnamed-semaphore.c\<close>
  lets a parent and a child hand a product to each other through two semaphores in shared memory.
  After the fork the two processes are interleaved step by step; a semaphore is an argument with the
  documented contract of a counter.
\<close>

section \<open>The wrappers\<close>

datatype sem_res = Shm_object | Fd | Mapping | Sem_name | Sem_handle

text \<open>A call that fails with an \<open>errno\<close> (\<open>Some\<close>) or succeeds; the trace is kept when the process exits.\<close>

type_synonym call = "int option"

datatype 'a run = Goes_on 'a "sem_res rev list" | Exits int "sem_res rev list"

fun bind_run :: "'a run \<Rightarrow> ('a \<Rightarrow> 'b run) \<Rightarrow> 'b run" where
  "bind_run (Goes_on a t) f = (case f a of Goes_on b t' \<Rightarrow> Goes_on b (t @ t') | Exits n t' \<Rightarrow> Exits n (t @ t'))"
| "bind_run (Exits n t) f = Exits n t"

definition wrap :: "call \<Rightarrow> sem_res rev list \<Rightarrow> unit run" where
  \<comment> \<open>\<open>if (ret == -1) { ...; exit(errno); }\<close>, otherwise the effect of the call\<close>
  "wrap c t = (case c of Some e \<Rightarrow> Exits e [] | None \<Rightarrow> Goes_on () t)"

record shm_calls =
  shm_open :: call
  ftruncate :: call
  mmap :: call
  close_fd :: call
  munmap :: call
  shm_unlink :: call

definition get_shm :: "shm_calls \<Rightarrow> unit run" where
  "get_shm c = bind_run (wrap (shm_open c) [Acquire Shm_object, Acquire Fd]) (\<lambda>_.
     bind_run (wrap (ftruncate c) []) (\<lambda>_.
     bind_run (wrap (mmap c) [Acquire Mapping]) (\<lambda>_.
     wrap (close_fd c) [Release Fd])))"

definition put_shm :: "shm_calls \<Rightarrow> unit run" where
  "put_shm c = bind_run (wrap (munmap c) [Release Mapping]) (\<lambda>_. wrap (shm_unlink c) [Release Shm_object])"

definition create_semaphore :: "call \<Rightarrow> unit run" where
  "create_semaphore sem_open = wrap sem_open [Acquire Sem_name, Acquire Sem_handle]"
definition unlink_semaphore :: "call \<Rightarrow> unit run" where
  "unlink_semaphore sem_unlink = wrap sem_unlink [Release Sem_name]"
definition init_semaphore :: "call \<Rightarrow> unit run" where "init_semaphore sem_init = wrap sem_init []"
definition destroy_semaphore :: "call \<Rightarrow> unit run" where "destroy_semaphore sem_destroy = wrap sem_destroy []"
definition open_semaphore :: "call \<Rightarrow> unit run" where
  "open_semaphore sem_open = wrap sem_open [Acquire Sem_handle]"
definition close_semaphore :: "call \<Rightarrow> unit run" where
  "close_semaphore sem_close = wrap sem_close [Release Sem_handle]"
definition post_semaphore :: "call \<Rightarrow> unit run" where "post_semaphore sem_post = wrap sem_post []"
definition wait_semaphore :: "call \<Rightarrow> unit run" where "wait_semaphore sem_wait = wrap sem_wait []"
definition get_semaphore :: "call \<Rightarrow> unit run" where "get_semaphore sem_getvalue = wrap sem_getvalue []"

lemmas wrappers = wrap_def create_semaphore_def unlink_semaphore_def init_semaphore_def destroy_semaphore_def
  open_semaphore_def close_semaphore_def post_semaphore_def wait_semaphore_def get_semaphore_def

section \<open>named-semaphore.c\<close>

record named_calls =
  print_start :: call  \<comment> \<open>the clock calls of the first \<open>print_msg\<close>\<close>
  sem_open :: call
  sem_op :: call       \<comment> \<open>the post, wait or getvalue of the command\<close>
  sem_close :: call
  sem_unlink :: call
  print_done :: call

definition print_msg :: "call \<Rightarrow> unit run" where "print_msg clock = wrap clock []"

definition named_command :: "string \<Rightarrow> named_calls \<Rightarrow> int run option" where
  \<comment> \<open>the chain of \<open>strcmp\<close> tests, \<open>None\<close> for its last \<open>else\<close>\<close>
  "named_command cmd c =
     (if cmd = ''create'' then
        Some (bind_run (create_semaphore (sem_open c)) (\<lambda>_. bind_run (close_semaphore (sem_close c)) (\<lambda>_. Goes_on 0 [])))
      else if cmd = ''unlink'' then Some (bind_run (unlink_semaphore (sem_unlink c)) (\<lambda>_. Goes_on 0 []))
      else if cmd = ''post'' then
        Some (bind_run (open_semaphore (sem_open c)) (\<lambda>_. bind_run (post_semaphore (sem_op c)) (\<lambda>_.
          bind_run (close_semaphore (sem_close c)) (\<lambda>_. Goes_on 0 []))))
      else if cmd = ''wait'' then
        Some (bind_run (open_semaphore (sem_open c)) (\<lambda>_. bind_run (wait_semaphore (sem_op c)) (\<lambda>_.
          bind_run (close_semaphore (sem_close c)) (\<lambda>_. Goes_on 0 []))))
      else if cmd = ''get'' then
        Some (bind_run (open_semaphore (sem_open c)) (\<lambda>_. bind_run (get_semaphore (sem_op c)) (\<lambda>_.
          bind_run (close_semaphore (sem_close c)) (\<lambda>_. Goes_on 0 []))))
      else if cmd = ''help'' then Some (Goes_on 0 [])
      else None)"

definition named_main :: "string list \<Rightarrow> named_calls \<Rightarrow> int run" where
  \<comment> \<open>\<open>argv\<close> with the program's name; the value is what \<open>main\<close> returns\<close>
  "named_main argv c =
     (if length argv \<noteq> 2 then Goes_on EINVAL []
      else bind_run (print_msg (print_start c)) (\<lambda>_.
        case named_command (argv ! 1) c of
          None \<Rightarrow> Goes_on EINVAL []
        | Some r \<Rightarrow> bind_run r (\<lambda>_. bind_run (print_msg (print_done c)) (\<lambda>_. Goes_on 0 []))))"

section \<open>unnamed-semaphore.c: before the fork and after the child has ended\<close>

definition unnamed_setup :: "shm_calls \<Rightarrow> call \<Rightarrow> call \<Rightarrow> call \<Rightarrow> unit run" where
  \<comment> \<open>shared memory, the two \<open>sem_init\<close>, \<open>fork\<close>\<close>
  "unnamed_setup c init1 init2 fork = bind_run (get_shm c) (\<lambda>_. bind_run (init_semaphore init1) (\<lambda>_.
     bind_run (init_semaphore init2) (\<lambda>_. wrap fork [])))"

definition unnamed_finish :: "shm_calls \<Rightarrow> call \<Rightarrow> bool \<Rightarrow> int \<Rightarrow> int \<Rightarrow> call \<Rightarrow> call \<Rightarrow> int run" where
  \<comment> \<open>\<open>waitpid\<close>, \<open>WIFEXITED\<close>, \<open>WEXITSTATUS\<close>, \<open>errno\<close> at the check, the two \<open>sem_destroy\<close>\<close>
  "unnamed_finish c waitpid wifexited wexitstatus err destroy1 destroy2 = bind_run (wrap waitpid []) (\<lambda>_.
     if \<not> wifexited \<and> wexitstatus \<noteq> 0 then Exits err []
     else bind_run (destroy_semaphore destroy1) (\<lambda>_. bind_run (destroy_semaphore destroy2) (\<lambda>_.
       bind_run (put_shm c) (\<lambda>_. Goes_on 0 []))))"

section \<open>unnamed-semaphore.c: parent and child\<close>

record 's psem =
  sem_start :: 's              \<comment> \<open>after \<open>sem_init (sem, 1, SEM_INIT_VALUE)\<close>\<close>
  sem_wait :: "'s \<Rightarrow> 's option"  \<comment> \<open>\<open>None\<close>: the caller has to wait\<close>
  sem_post :: "'s \<Rightarrow> 's"

definition SEM_INIT_VALUE :: nat where "SEM_INIT_VALUE = 0"

definition psem_contract :: "'s psem \<Rightarrow> ('s \<Rightarrow> nat) \<Rightarrow> bool" where
  "psem_contract ops v \<longleftrightarrow> v (sem_start ops) = SEM_INIT_VALUE \<and>
     (\<forall>x. sem_wait ops x = None \<longleftrightarrow> v x = 0) \<and>
     (\<forall>x y. sem_wait ops x = Some y \<longrightarrow> v x = Suc (v y)) \<and>
     (\<forall>x. v (sem_post ops x) = Suc (v x))"

datatype parent_pc = P_Produce | P_Post | P_Wait | P_Consumed | P_Waitpid | P_Done
datatype child_pc = C_Wait | C_Consumed | C_Produce | C_Post | C_Exit

datatype event = Parent_produced | Child_consumed | Child_produced | Parent_consumed

record 's pair =
  parent_sem :: 's
  child_sem :: 's
  parent :: parent_pc
  child :: child_pc
  printed :: "event list"

definition forked :: "'s psem \<Rightarrow> 's pair \<Rightarrow> bool" where
  "forked ops s \<longleftrightarrow> s = \<lparr>parent_sem = sem_start ops, child_sem = sem_start ops, parent = P_Produce,
     child = C_Wait, printed = []\<rparr>"

definition parent_step :: "'s psem \<Rightarrow> 's pair \<Rightarrow> 's pair option" where
  "parent_step ops s = (case parent s of
     P_Produce \<Rightarrow> Some (s\<lparr>printed := printed s @ [Parent_produced], parent := P_Post\<rparr>)
   | P_Post \<Rightarrow> Some (s\<lparr>parent_sem := sem_post ops (parent_sem s), parent := P_Wait\<rparr>)
   | P_Wait \<Rightarrow> (case sem_wait ops (child_sem s) of None \<Rightarrow> None
       | Some x \<Rightarrow> Some (s\<lparr>child_sem := x, parent := P_Consumed\<rparr>))
   | P_Consumed \<Rightarrow> Some (s\<lparr>printed := printed s @ [Parent_consumed], parent := P_Waitpid\<rparr>)
   | P_Waitpid \<Rightarrow> if child s = C_Exit then Some (s\<lparr>parent := P_Done\<rparr>) else None
   | P_Done \<Rightarrow> None)"

definition child_step :: "'s psem \<Rightarrow> 's pair \<Rightarrow> 's pair option" where
  "child_step ops s = (case child s of
     C_Wait \<Rightarrow> (case sem_wait ops (parent_sem s) of None \<Rightarrow> None
       | Some x \<Rightarrow> Some (s\<lparr>parent_sem := x, child := C_Consumed\<rparr>))
   | C_Consumed \<Rightarrow> Some (s\<lparr>printed := printed s @ [Child_consumed], child := C_Produce\<rparr>)
   | C_Produce \<Rightarrow> Some (s\<lparr>printed := printed s @ [Child_produced], child := C_Post\<rparr>)
   | C_Post \<Rightarrow> Some (s\<lparr>child_sem := sem_post ops (child_sem s), child := C_Exit\<rparr>)
   | C_Exit \<Rightarrow> None)"

inductive pair_step :: "'s psem \<Rightarrow> 's pair \<Rightarrow> 's pair \<Rightarrow> bool" for ops where
  by_parent: "parent_step ops s = Some t \<Longrightarrow> pair_step ops s t"
| by_child: "child_step ops s = Some t \<Longrightarrow> pair_step ops s t"

inductive_cases pair_stepE: "pair_step ops s t"

section \<open>The invariant of the handshake\<close>

fun parent_rank :: "parent_pc \<Rightarrow> nat" where
  "parent_rank P_Produce = 0" | "parent_rank P_Post = 1" | "parent_rank P_Wait = 2"
| "parent_rank P_Consumed = 3" | "parent_rank P_Waitpid = 4" | "parent_rank P_Done = 5"

fun child_rank :: "child_pc \<Rightarrow> nat" where
  "child_rank C_Wait = 0" | "child_rank C_Consumed = 1" | "child_rank C_Produce = 2" | "child_rank C_Post = 3"
| "child_rank C_Exit = 4"

definition events_by :: "nat \<Rightarrow> nat \<Rightarrow> event list" where
  "events_by p c = (if 1 \<le> p then [Parent_produced] else []) @ (if 2 \<le> c then [Child_consumed] else []) @
     (if 3 \<le> c then [Child_produced] else []) @ (if 4 \<le> p then [Parent_consumed] else [])"

definition pair_inv :: "('s \<Rightarrow> nat) \<Rightarrow> 's pair \<Rightarrow> bool" where
  "pair_inv v s \<longleftrightarrow> (let p = parent_rank (parent s); c = child_rank (child s) in
     v (parent_sem s) + (if 1 \<le> c then 1 else 0) = (if 2 \<le> p then 1 else 0) \<and>
     v (child_sem s) + (if 3 \<le> p then 1 else 0) = (if 4 \<le> c then 1 else 0) \<and>
     printed s = events_by p c)"

definition checked_inv :: "'s psem \<Rightarrow> ('s \<Rightarrow> nat) \<Rightarrow> 's pair \<Rightarrow> bool" where
  "checked_inv ops v s \<longleftrightarrow> (psem_contract ops v \<longrightarrow> pair_inv v s)"

lemma pair_inv_parent:
  assumes "psem_contract ops v" "pair_inv v s" "parent_step ops s = Some t"
  shows "pair_inv v t"
  using assms
  by (cases "parent s"; cases "child s")
    (auto simp: pair_inv_def parent_step_def events_by_def psem_contract_def split: option.splits if_splits)

lemma pair_inv_child:
  assumes "psem_contract ops v" "pair_inv v s" "child_step ops s = Some t"
  shows "pair_inv v t"
  using assms
  by (cases "parent s"; cases "child s")
    (auto simp: pair_inv_def child_step_def events_by_def psem_contract_def split: option.splits if_splits)

interpretation handshake: invariant_system "forked ops" "pair_step ops" "checked_inv ops v"
  for ops :: "'s psem" and v
proof (unfold_locales, unfold checked_inv_def, safe)
  fix s assume "forked ops s" "psem_contract ops v"
  then show "pair_inv v s"
    by (simp add: forked_def psem_contract_def pair_inv_def SEM_INIT_VALUE_def events_by_def)
next
  fix s t assume "pair_step ops s t" "psem_contract ops v" "pair_inv v s"
  then show "pair_inv v t"
    by (auto elim!: pair_stepE intro: pair_inv_parent pair_inv_child)
qed

lemma reach_pair_inv: "psem_contract ops v \<Longrightarrow> reach (forked ops) (pair_step ops) s \<Longrightarrow> pair_inv v s"
  using handshake.reach_inv [of ops s v] by (simp add: checked_inv_def)

text \<open>The parent is done only after it has seen the child's exit.\<close>

definition waited_inv :: "'s pair \<Rightarrow> bool" where
  "waited_inv s \<longleftrightarrow> (parent s = P_Done \<longrightarrow> child s = C_Exit)"

interpretation waited: invariant_system "forked ops" "pair_step ops" waited_inv for ops :: "'s psem"
  by (unfold_locales; (elim pair_stepE)?)
    (auto simp: waited_inv_def forked_def parent_step_def child_step_def
      split: parent_pc.splits child_pc.splits option.splits if_splits)

lemma done_child: "reach (forked ops) (pair_step ops) s \<Longrightarrow> parent s = P_Done \<Longrightarrow> child s = C_Exit"
  using waited.reach_inv [of ops s] by (simp add: waited_inv_def)

definition pair_rank :: "'s pair \<Rightarrow> nat" where
  "pair_rank s = (5 - parent_rank (parent s)) + (4 - child_rank (child s))"

lemma pair_step_rank: "pair_step ops s t \<Longrightarrow> pair_rank t < pair_rank s"
  by (erule pair_stepE; cases "parent s"; cases "child s")
    (auto simp: parent_step_def child_step_def pair_rank_def split: option.splits if_splits)

lemma pair_enabled:
  assumes "psem_contract ops v" "pair_inv v s" "parent s \<noteq> P_Done"
  shows "\<exists>t. pair_step ops s t"
proof -
  have "parent_step ops s \<noteq> None \<or> child_step ops s \<noteq> None"
    using assms by (cases "parent s"; cases "child s")
      (auto simp: parent_step_def child_step_def pair_inv_def psem_contract_def split: option.splits)
  then show ?thesis by (auto intro: pair_step.intros)
qed

lemma pair_runs_out:
  "psem_contract ops v \<Longrightarrow> pair_inv v s \<Longrightarrow> \<exists>t. (pair_step ops)\<^sup>*\<^sup>* s t \<and> pair_inv v t \<and> parent t = P_Done"
proof (induction "pair_rank s" arbitrary: s rule: less_induct)
  case less
  show ?case
  proof (cases "parent s = P_Done")
    case False
    then obtain t where t: "pair_step ops s t" using pair_enabled less.prems by blast
    then have "pair_inv v t"
      using less.prems by (auto elim!: pair_stepE intro: pair_inv_parent pair_inv_child)
    from less.hyps [OF pair_step_rank [OF t] less.prems(1) this] t show ?thesis
      by (meson converse_rtranclp_into_rtranclp)
  qed (use less.prems in blast)
qed

section \<open>Exit status and trace of a run\<close>

fun exit_status :: "int run \<Rightarrow> int" where
  "exit_status (Goes_on n t) = n" | "exit_status (Exits n t) = n"

fun trace_of :: "'a run \<Rightarrow> sem_res rev list" where
  "trace_of (Goes_on n t) = t" | "trace_of (Exits n t) = t"

fun first_error :: "call list \<Rightarrow> call" where
  "first_error [] = None"
| "first_error (Some e # cs) = Some e"
| "first_error (None # cs) = first_error cs"

definition status_of :: "call \<Rightarrow> int" where "status_of c = (case c of None \<Rightarrow> 0 | Some e \<Rightarrow> e)"

definition command_calls :: "string \<Rightarrow> named_calls \<Rightarrow> call list option" where
  \<comment> \<open>the calls each command makes, in order\<close>
  "command_calls cmd c = map_of
     [(''create'', [sem_open c, sem_close c]), (''unlink'', [sem_unlink c]),
      (''post'', [sem_open c, sem_op c, sem_close c]), (''wait'', [sem_open c, sem_op c, sem_close c]),
      (''get'', [sem_open c, sem_op c, sem_close c]), (''help'', [])] cmd"

definition names_after :: "string \<Rightarrow> sem_res multiset \<Rightarrow> sem_res multiset" where
  "names_after cmd M = (if cmd = ''create'' then add_mset Sem_name M
     else if cmd = ''unlink'' then M - {#Sem_name#} else M)"

lemma first_error_Cons: "first_error (c # cs) = (case c of None \<Rightarrow> first_error cs | Some e \<Rightarrow> Some e)"
  by (cases c) auto

lemma first_error_append: "first_error (cs @ ds) = (case first_error cs of None \<Rightarrow> first_error ds | Some e \<Rightarrow> Some e)"
  by (induction cs rule: first_error.induct) auto

lemma named_command_status:
  "named_command cmd c = None \<longleftrightarrow> command_calls cmd c = None"
  "named_command cmd c = Some r \<Longrightarrow> command_calls cmd c = Some cs \<Longrightarrow> exit_status r = status_of (first_error cs)"
  by (auto simp: named_command_def command_calls_def wrappers status_of_def split: if_splits option.splits)

lemma named_command_done:
  assumes "command_calls cmd c = Some cs" "first_error cs = None"
  shows "\<exists>t. named_command cmd c = Some (Goes_on 0 t) \<and>
    (\<forall>M. (cmd = ''unlink'' \<longrightarrow> Sem_name \<in># M) \<longrightarrow> run_trace M t = Some (names_after cmd M))"
  using assms
  by (cases "sem_open c"; cases "sem_op c"; cases "sem_close c"; cases "sem_unlink c")
    (auto simp: named_command_def command_calls_def names_after_def wrappers split: if_splits)

lemma named_command_stops:
  assumes "command_calls cmd c = Some cs" "first_error cs = Some e"
  shows "\<exists>t. named_command cmd c = Some (Exits e t)"
  using assms
  by (cases "sem_open c"; cases "sem_op c"; cases "sem_close c"; cases "sem_unlink c")
    (auto simp: named_command_def command_calls_def wrappers split: if_splits)

lemma unnamed_setup_cases:
  assumes "first_error [shm_open c, ftruncate c, mmap c, close_fd c, init1, init2, fork] = e"
  shows "case e of
      None \<Rightarrow> \<exists>t. unnamed_setup c init1 init2 fork = Goes_on () t \<and> leaks t {#Shm_object, Mapping#}
    | Some n \<Rightarrow> \<exists>t M. unnamed_setup c init1 init2 fork = Exits n t \<and> leaks t M \<and>
        (Shm_object \<in># M \<longleftrightarrow> shm_open c = None)"
  using assms
  by (cases "shm_open c"; cases "ftruncate c"; cases "mmap c"; cases "close_fd c"; cases init1; cases init2; cases fork)
    (auto simp: unnamed_setup_def get_shm_def wrappers leaks_def)

lemma unnamed_finish_cases:
  assumes "wifexited \<or> wexitstatus = 0"
    and "first_error [waitpid, destroy1, destroy2, munmap c, shm_unlink c] = e"
  shows "case e of
      None \<Rightarrow> unnamed_finish c waitpid wifexited wexitstatus err destroy1 destroy2 =
        Goes_on 0 [Release Mapping, Release Shm_object]
    | Some n \<Rightarrow> \<exists>t. unnamed_finish c waitpid wifexited wexitstatus err destroy1 destroy2 = Exits n t \<and>
        t \<in> {[], [Release Mapping]}"
  using assms
  by (cases waitpid; cases destroy1; cases destroy2; cases "munmap c"; cases "shm_unlink c")
    (auto simp: unnamed_finish_def put_shm_def wrappers)

lemma named_main_facts:
  shows "length argv \<noteq> 2 \<Longrightarrow> exit_status (named_main argv c) = EINVAL"
    and "command_calls cmd c = None \<Longrightarrow> exit_status (named_main [prog, cmd] c) =
      (case print_start c of None \<Rightarrow> EINVAL | Some e \<Rightarrow> e)"
    and "command_calls cmd c = Some cs \<Longrightarrow> exit_status (named_main [prog, cmd] c) =
      status_of (first_error (print_start c # cs @ [print_done c]))"
    and "command_calls cmd c = Some cs \<Longrightarrow> first_error (print_start c # cs @ [print_done c]) = None \<Longrightarrow>
      (cmd = ''unlink'' \<Longrightarrow> Sem_name \<in># M) \<Longrightarrow>
      run_trace M (trace_of (named_main [prog, cmd] c)) = Some (names_after cmd M)"
proof -
  show "length argv \<noteq> 2 \<Longrightarrow> exit_status (named_main argv c) = EINVAL" by (simp add: named_main_def)
  show "command_calls cmd c = None \<Longrightarrow> exit_status (named_main [prog, cmd] c) =
      (case print_start c of None \<Rightarrow> EINVAL | Some e \<Rightarrow> e)"
    using named_command_status(1) [of cmd c] by (simp add: named_main_def print_msg_def wrap_def split: option.split)
  show "exit_status (named_main [prog, cmd] c) = status_of (first_error (print_start c # cs @ [print_done c]))"
    if cs: "command_calls cmd c = Some cs"
  proof (cases "first_error cs")
    case None
    then obtain t where "named_command cmd c = Some (Goes_on 0 t)" using named_command_done [OF cs] by blast
    then show ?thesis using None
      by (auto simp: named_main_def print_msg_def wrap_def status_of_def first_error_append split: option.split)
  next
    case (Some e)
    then obtain t where "named_command cmd c = Some (Exits e t)" using named_command_stops [OF cs] by blast
    then show ?thesis using Some
      by (auto simp: named_main_def print_msg_def wrap_def status_of_def first_error_append split: option.split)
  qed
  show "run_trace M (trace_of (named_main [prog, cmd] c)) = Some (names_after cmd M)"
    if cs: "command_calls cmd c = Some cs" and ok: "first_error (print_start c # cs @ [print_done c]) = None"
      and M: "cmd = ''unlink'' \<Longrightarrow> Sem_name \<in># M"
  proof -
    have "print_start c = None" "first_error cs = None" "print_done c = None"
      using ok by (simp_all add: first_error_append first_error_Cons split: option.splits)
    moreover from this obtain t where "named_command cmd c = Some (Goes_on 0 t)"
      "run_trace M t = Some (names_after cmd M)"
      using named_command_done [OF cs] M by blast
    ultimately show ?thesis
      by (auto simp: named_main_def print_msg_def wrap_def)
  qed
qed

lemma unnamed_facts:
  shows "first_error [shm_open c, ftruncate c, mmap c, close_fd c, init1, init2, fork] = Some n \<Longrightarrow>
      \<exists>t M. unnamed_setup c init1 init2 fork = Exits n t \<and> leaks t M \<and> (Shm_object \<in># M \<longleftrightarrow> shm_open c = None)"
    and "first_error [shm_open c, ftruncate c, mmap c, close_fd c, init1, init2, fork] = None \<Longrightarrow>
      wifexited \<or> wexitstatus = 0 \<Longrightarrow> first_error [waitpid, destroy1, destroy2, munmap c, shm_unlink c] = None \<Longrightarrow>
      exit_status (unnamed_finish c waitpid wifexited wexitstatus err destroy1 destroy2) = 0 \<and>
      balanced (trace_of (unnamed_setup c init1 init2 fork) @
        trace_of (unnamed_finish c waitpid wifexited wexitstatus err destroy1 destroy2))"
    and "wifexited \<or> wexitstatus = 0 \<Longrightarrow> first_error [waitpid, destroy1, destroy2, munmap c, shm_unlink c] = Some n \<Longrightarrow>
      exit_status (unnamed_finish c waitpid wifexited wexitstatus err destroy1 destroy2) = n"
proof -
  show "first_error [shm_open c, ftruncate c, mmap c, close_fd c, init1, init2, fork] = Some n \<Longrightarrow>
      \<exists>t M. unnamed_setup c init1 init2 fork = Exits n t \<and> leaks t M \<and> (Shm_object \<in># M \<longleftrightarrow> shm_open c = None)"
    using unnamed_setup_cases [of c init1 init2 fork "Some n"] by simp
  show "exit_status (unnamed_finish c waitpid wifexited wexitstatus err destroy1 destroy2) = 0 \<and>
      balanced (trace_of (unnamed_setup c init1 init2 fork) @
        trace_of (unnamed_finish c waitpid wifexited wexitstatus err destroy1 destroy2))"
    if "first_error [shm_open c, ftruncate c, mmap c, close_fd c, init1, init2, fork] = None"
      "wifexited \<or> wexitstatus = 0" "first_error [waitpid, destroy1, destroy2, munmap c, shm_unlink c] = None"
    using unnamed_setup_cases [OF that(1)] unnamed_finish_cases [OF that(2,3)]
    by (auto simp: trace_eval run_trace_append)
  show "exit_status (unnamed_finish c waitpid wifexited wexitstatus err destroy1 destroy2) = n"
    if "wifexited \<or> wexitstatus = 0" "first_error [waitpid, destroy1, destroy2, munmap c, shm_unlink c] = Some n"
    using unnamed_finish_cases [OF that, of err] by auto
qed

section \<open>Properties\<close>

text \<open>
  C11: the handshake is ordered and ends. In every interleaving of parent and child what they print is a
  prefix-closed part of "parent produced, child consumed, child produced, parent consumed" in that order;
  every step lowers a rank, so no interleaving is infinite; as long as the parent is not done some process
  can step, and the run reaches an end where all four messages are printed in that order and both
  semaphores are 0 again.
\<close>
theorem sem_handshake:
  assumes "psem_contract ops v" and "reach (forked ops) (pair_step ops) s"
  shows "printed s = events_by (parent_rank (parent s)) (child_rank (child s)) \<and>
    (\<forall>t. pair_step ops s t \<longrightarrow> pair_rank t < pair_rank s) \<and>
    (parent s = P_Done \<or> (\<exists>t. pair_step ops s t)) \<and>
    (\<exists>t. (pair_step ops)\<^sup>*\<^sup>* s t \<and> parent t = P_Done) \<and>
    (parent s = P_Done \<longrightarrow> child s = C_Exit \<and> v (parent_sem s) = 0 \<and> v (child_sem s) = 0 \<and>
      printed s = [Parent_produced, Child_consumed, Child_produced, Parent_consumed])"
proof -
  note inv = reach_pair_inv [OF assms]
  have "printed s = events_by (parent_rank (parent s)) (child_rank (child s))"
    using inv by (simp add: pair_inv_def Let_def)
  moreover have "parent s = P_Done \<longrightarrow> child s = C_Exit \<and> v (parent_sem s) = 0 \<and> v (child_sem s) = 0 \<and>
      printed s = [Parent_produced, Child_consumed, Child_produced, Parent_consumed]"
    using inv done_child [OF assms(2)] by (auto simp: pair_inv_def events_by_def)
  ultimately show ?thesis
    using pair_step_rank pair_enabled [OF assms(1) inv] pair_runs_out [OF assms(1) inv] by blast
qed

text \<open>
  what the named semaphore program does. It returns \<open>EINVAL\<close> for a wrong number of arguments and, once
  the start message is printed, for an unknown command; otherwise its exit status is the \<open>errno\<close> of the first
  system call that fails, and 0 if none does. A run without failures adds the semaphore's name for \<open>create\<close>,
  removes it for \<open>unlink\<close>, and leaves what was there, and no open handle, for the other commands.
\<close>
theorem named_main_result:
  "(length argv \<noteq> 2 \<longrightarrow> exit_status (named_main argv c) = EINVAL) \<and>
   (case command_calls cmd c of
      None \<Rightarrow> exit_status (named_main [prog, cmd] c) = (case print_start c of None \<Rightarrow> EINVAL | Some e \<Rightarrow> e)
    | Some cs \<Rightarrow>
        exit_status (named_main [prog, cmd] c) = status_of (first_error (print_start c # cs @ [print_done c])) \<and>
        (first_error (print_start c # cs @ [print_done c]) = None \<longrightarrow> (cmd = ''unlink'' \<longrightarrow> Sem_name \<in># M) \<longrightarrow>
          run_trace M (trace_of (named_main [prog, cmd] c)) = Some (names_after cmd M)))"
  using named_main_facts(1) [of argv c] named_main_facts(2) [of cmd c prog]
    named_main_facts(3) [of cmd c _ prog] named_main_facts(4) [of cmd c _ M prog]
  by (cases "command_calls cmd c") simp_all

text \<open>
  C38: the resources of the unnamed semaphore program. Setup exits with the \<open>errno\<close> of the first call that
  fails, and every failure after \<open>shm_open\<close> leaves the shared memory object behind; if all calls succeed
  setup and cleanup together release everything. A child that exits normally with any status,
  non-zero ones included, is accepted: the program still returns 0.
\<close>
theorem unnamed_resources:
  "(case first_error [shm_open c, ftruncate c, mmap c, close_fd c, init1, init2, fork] of
      Some n \<Rightarrow> \<exists>t M. unnamed_setup c init1 init2 fork = Exits n t \<and> leaks t M \<and>
        (Shm_object \<in># M \<longleftrightarrow> shm_open c = None)
    | None \<Rightarrow> (wifexited \<or> wexitstatus = 0) \<longrightarrow>
        (let r = unnamed_finish c waitpid wifexited wexitstatus err destroy1 destroy2 in
         case first_error [waitpid, destroy1, destroy2, munmap c, shm_unlink c] of
           Some n \<Rightarrow> exit_status r = n
         | None \<Rightarrow> exit_status r = 0 \<and>
             balanced (trace_of (unnamed_setup c init1 init2 fork) @ trace_of r)))"
proof (cases "first_error [shm_open c, ftruncate c, mmap c, close_fd c, init1, init2, fork]")
  case None
  show ?thesis
  proof (cases "first_error [waitpid, destroy1, destroy2, munmap c, shm_unlink c]")
    case n: None
    show ?thesis unfolding None n Let_def option.case by (intro impI, rule unnamed_facts(2) [OF None _ n])
  next
    case (Some n)
    show ?thesis unfolding None Some Let_def option.case by (intro impI, rule unnamed_facts(3) [OF _ Some])
  qed
next
  case (Some n)
  from unnamed_facts(1) [OF Some] show ?thesis unfolding Some option.case .
qed

section \<open>Witnesses\<close>

text \<open>A semaphore that is its counter.\<close>

definition nat_psem :: "nat psem" where
  "nat_psem = \<lparr>sem_start = 0, sem_wait = (\<lambda>n. if n = 0 then None else Some (n - 1)), sem_post = Suc\<rparr>"

lemma nat_psem_contract: "psem_contract nat_psem id"
  by (auto simp: psem_contract_def nat_psem_def SEM_INIT_VALUE_def)

definition nat_pair :: "nat pair" where
  "nat_pair = \<lparr>parent_sem = 0, child_sem = 0, parent = P_Produce, child = C_Wait, printed = []\<rparr>"

lemma reach_nat_pair: "reach (forked nat_psem) (pair_step nat_psem) nat_pair"
  by (rule reach_init) (simp add: forked_def nat_pair_def nat_psem_def)

theorem sem_handshake_witness:
  "printed nat_pair = [] \<and> (\<exists>t. pair_step nat_psem nat_pair t) \<and>
   (\<exists>t. (pair_step nat_psem)\<^sup>*\<^sup>* nat_pair t \<and> parent t = P_Done)"
  using sem_handshake [OF nat_psem_contract reach_nat_pair]
  by (simp add: nat_pair_def events_by_def)

definition all_fine :: named_calls where
  "all_fine = \<lparr>print_start = None, sem_open = None, sem_op = None, sem_close = None, sem_unlink = None, print_done = None\<rparr>"

theorem named_main_result_witness:
  "exit_status (named_main [''sem''] all_fine) = EINVAL \<and>
   exit_status (named_main [''sem'', ''stop''] all_fine) = EINVAL \<and>
   exit_status (named_main [''sem'', ''post''] (all_fine\<lparr>sem_open := Some 2\<rparr>)) = 2 \<and>
   run_trace {#Sem_name#} (trace_of (named_main [''sem'', ''unlink''] all_fine)) = Some {#}"
  using named_main_result [where argv = "[''sem'']" and c = all_fine and cmd = "''stop''" and prog = "''sem''"]
    named_main_result [where c = "all_fine\<lparr>sem_open := Some 2\<rparr>" and cmd = "''post''" and prog = "''sem''"]
    named_main_result [where c = all_fine and cmd = "''unlink''" and prog = "''sem''" and M = "{#Sem_name#}"]
  by (simp add: command_calls_def all_fine_def status_of_def names_after_def)

definition shm_fine :: shm_calls where
  "shm_fine = \<lparr>shm_open = None, ftruncate = None, mmap = None, close_fd = None, munmap = None, shm_unlink = None\<rparr>"

theorem unnamed_resources_witness:
  "(\<exists>t M. unnamed_setup (shm_fine\<lparr>mmap := Some 12\<rparr>) None None None = Exits 12 t \<and> leaks t M \<and> Shm_object \<in># M) \<and>
   exit_status (unnamed_finish shm_fine None True 3 0 None None) = 0 \<and>
   exit_status (unnamed_finish shm_fine (Some 10) True 0 0 None None) = 10"
  using unnamed_resources [where c = "shm_fine\<lparr>mmap := Some 12\<rparr>" and ?init1.0 = None and ?init2.0 = None and fork = None]
    unnamed_resources [where c = shm_fine and ?init1.0 = None and ?init2.0 = None and fork = None and waitpid = None
      and ?destroy1.0 = None and ?destroy2.0 = None and wifexited = True and wexitstatus = 3 and err = 0]
    unnamed_resources [where c = shm_fine and ?init1.0 = None and ?init2.0 = None and fork = None and waitpid = "Some 10"
      and wifexited = True and wexitstatus = 0 and err = 0 and ?destroy1.0 = None and ?destroy2.0 = None]
  by (simp add: shm_fine_def Let_def)

end
