(* ===== verification/CLayout.thy ===== *)
theory CLayout
  imports CPrelude
begin

text \<open>
  Memory layout of C structures and unions (\<open>c/struct-demo.c\<close>, \<open>c/union-demo.c\<close>). The demos print the
  size of aggregates, the offset and size of their members, and the bytes of an object after some
  assignments. The layout rules are those of the LP64 ABI the demos run on: every scalar is aligned to its
  size, members are placed in order at the next aligned offset, an aggregate is as aligned as its most
  aligned member and padded to a multiple of that. A member without a name (an anonymous structure or
  union) gives its own members to the enclosing aggregate; a tagged structure without a declarator is
  only a declaration and no member.
\<close>

section \<open>Types\<close>

datatype ctype = Char_t | Short_t | Int_t | Uint_t | Long_t | Llong_t | Double_t | Pointer_t
  | Array_t ctype nat | Struct_t fields | Union_t fields
and fields = No_field | Field string ctype fields

definition align_up :: "nat \<Rightarrow> nat \<Rightarrow> nat" where
  "align_up n a = (n + (a - 1)) div a * a"

fun alignof :: "ctype \<Rightarrow> nat" and fields_align :: "fields \<Rightarrow> nat" where
  "alignof Char_t = 1" | "alignof Short_t = 2" | "alignof Int_t = 4" | "alignof Uint_t = 4"
| "alignof Long_t = 8" | "alignof Llong_t = 8" | "alignof Double_t = 8" | "alignof Pointer_t = 8"
| "alignof (Array_t t n) = alignof t"
| "alignof (Struct_t fs) = fields_align fs"
| "alignof (Union_t fs) = fields_align fs"
| "fields_align No_field = 1"
| "fields_align (Field n t fs) = max (alignof t) (fields_align fs)"

text \<open>\<open>struct_end o fs\<close>: the first offset after the members \<open>fs\<close>, placed from offset \<open>o\<close> on.\<close>

fun sizeof :: "ctype \<Rightarrow> nat" and struct_end :: "nat \<Rightarrow> fields \<Rightarrow> nat" and union_end :: "fields \<Rightarrow> nat" where
  "sizeof Char_t = 1" | "sizeof Short_t = 2" | "sizeof Int_t = 4" | "sizeof Uint_t = 4"
| "sizeof Long_t = 8" | "sizeof Llong_t = 8" | "sizeof Double_t = 8" | "sizeof Pointer_t = 8"
| "sizeof (Array_t t n) = n * sizeof t"
| "sizeof (Struct_t fs) = align_up (struct_end 0 fs) (fields_align fs)"
| "sizeof (Union_t fs) = align_up (union_end fs) (fields_align fs)"
| "struct_end p No_field = p"
| "struct_end p (Field n t fs) = struct_end (align_up p (alignof t) + sizeof t) fs"
| "union_end No_field = 0"
| "union_end (Field n t fs) = max (sizeof t) (union_end fs)"

text \<open>The members with their offsets.\<close>

fun struct_members :: "nat \<Rightarrow> fields \<Rightarrow> (string \<times> nat \<times> ctype) list" where
  "struct_members p No_field = []"
| "struct_members p (Field n t fs) =
     (n, align_up p (alignof t), t) # struct_members (align_up p (alignof t) + sizeof t) fs"

fun union_members :: "fields \<Rightarrow> (string \<times> nat \<times> ctype) list" where
  "union_members No_field = []"
| "union_members (Field n t fs) = (n, 0, t) # union_members fs"

fun members :: "ctype \<Rightarrow> (string \<times> nat \<times> ctype) list" where
  "members (Struct_t fs) = struct_members 0 fs"
| "members (Union_t fs) = union_members fs"
| "members t = []"

text \<open>What \<open>object.name\<close> denotes: a member of that name, or one of an unnamed member, with its offset.\<close>

fun find_member :: "ctype \<Rightarrow> string \<Rightarrow> (nat \<times> ctype) option"
  and find_in_struct :: "nat \<Rightarrow> fields \<Rightarrow> string \<Rightarrow> (nat \<times> ctype) option"
  and find_in_union :: "fields \<Rightarrow> string \<Rightarrow> (nat \<times> ctype) option" where
  "find_member (Struct_t fs) name = find_in_struct 0 fs name"
| "find_member (Union_t fs) name = find_in_union fs name"
| "find_member (Array_t t n) name = None"
| "find_member Char_t name = None" | "find_member Short_t name = None" | "find_member Int_t name = None"
| "find_member Uint_t name = None" | "find_member Long_t name = None" | "find_member Llong_t name = None"
| "find_member Double_t name = None" | "find_member Pointer_t name = None"
| "find_in_struct p No_field name = None"
| "find_in_struct p (Field n t fs) name =
     (let here = align_up p (alignof t) in
      if n = name \<and> n \<noteq> [] then Some (here, t)
      else case (if n = [] then find_member t name else None) of
        Some (d, u) \<Rightarrow> Some (here + d, u)
      | None \<Rightarrow> find_in_struct (here + sizeof t) fs name)"
| "find_in_union No_field name = None"
| "find_in_union (Field n t fs) name =
     (if n = name \<and> n \<noteq> [] then Some (0, t)
      else case (if n = [] then find_member t name else None) of
        Some (d, u) \<Rightarrow> Some (d, u)
      | None \<Rightarrow> find_in_union fs name)"

text \<open>\<open>object.a.b.c\<close>.\<close>

fun resolve :: "ctype \<Rightarrow> string list \<Rightarrow> (nat \<times> ctype) option" where
  "resolve t [] = Some (0, t)"
| "resolve t (a # path) = (case find_member t a of
     None \<Rightarrow> None
   | Some (d, u) \<Rightarrow> (case resolve u path of None \<Rightarrow> None | Some (e, v) \<Rightarrow> Some (d + e, v)))"

section \<open>Objects\<close>

text \<open>An object is the list of its bytes; what it holds before the first assignment is arbitrary.\<close>

definition store :: "nat \<Rightarrow> u8 list \<Rightarrow> u8 list \<Rightarrow> u8 list" where
  "store p bs mem = take p mem @ bs @ drop (p + length bs) mem"

definition assign :: "ctype \<Rightarrow> string list \<Rightarrow> nat \<Rightarrow> u8 list \<Rightarrow> u8 list option" where
  \<comment> \<open>\<open>object.path = v\<close>; \<open>None\<close> where the compiler refuses the path\<close>
  "assign t path v mem = (case resolve t path of
     None \<Rightarrow> None
   | Some (p, u) \<Rightarrow> Some (store p (le_bytes (sizeof u) v) mem))"

definition load :: "ctype \<Rightarrow> string list \<Rightarrow> u8 list \<Rightarrow> nat option" where
  "load t path mem = (case resolve t path of
     None \<Rightarrow> None
   | Some (p, u) \<Rightarrow> Some (le_val (take (sizeof u) (drop p mem))))"

definition show_char :: "u8 \<Rightarrow> string" where
  \<comment> \<open>\<open>printf(" %x", (char)b)\<close>: the promotion to \<open>int\<close> extends the sign\<close>
  "show_char b = CHR '' '' # hex_of (unat (signed_take_bit 7 (ucast b) :: u32))"

definition show_bytes :: "u8 list \<Rightarrow> string" where
  "show_bytes mem = concat (map show_char mem)"

section \<open>Alignment\<close>

abbreviation word_sizes :: "nat set" where "word_sizes \<equiv> {1, 2, 4, 8}"

lemma align_up_between:
  assumes "0 < a"
  shows "n \<le> align_up n a \<and> align_up n a < n + a"
proof -
  have "(n + (a - 1)) div a * a + (n + (a - 1)) mod a = n + (a - 1)" "(n + (a - 1)) mod a < a"
    using assms by simp_all
  with assms show ?thesis unfolding align_up_def by linarith
qed

lemmas align_up_ge = align_up_between [THEN conjunct1] and align_up_less = align_up_between [THEN conjunct2]

lemma align_up_dvd [simp]: "a dvd align_up n a"
  by (simp add: align_up_def)

lemma align_up_least: "0 < a \<Longrightarrow> n \<le> m \<Longrightarrow> a dvd m \<Longrightarrow> align_up n a \<le> m"
proof -
  assume a: "0 < a" "n \<le> m" "a dvd m"
  then obtain k where m: "m = a * k" by blast
  have "align_up n a < a * Suc k" using align_up_less [OF a(1), of n] a(2) m by simp
  moreover obtain j where "align_up n a = a * j" using align_up_dvd [of a n] by blast
  ultimately have "j < Suc k" using a(1) mult_less_cancel1 [of a j "Suc k"] by simp
  then show ?thesis using m \<open>align_up n a = a * j\<close> by simp
qed

lemma alignof_sizes: "alignof t \<in> word_sizes" and fields_align_sizes: "fields_align fs \<in> word_sizes"
  by (induction t and fs rule: ctype.induct fields.induct) (auto simp: max_def)

lemma alignof_pos [simp]: "0 < alignof t" "0 < fields_align fs"
  using alignof_sizes [of t] fields_align_sizes [of fs] by auto

lemma word_sizes_dvd_max: "a \<in> word_sizes \<Longrightarrow> b \<in> word_sizes \<Longrightarrow> a dvd max a b \<and> b dvd max a b"
  by auto

lemma alignof_dvd_fields: "alignof t dvd fields_align (Field n t fs)" "fields_align fs dvd fields_align (Field n t fs)"
  using word_sizes_dvd_max [OF alignof_sizes [of t] fields_align_sizes [of fs]] by auto

lemma alignof_dvd_sizeof: "alignof t dvd sizeof t"
  by (induction t) simp_all

lemma struct_end_ge: "p \<le> struct_end p fs"
proof (induction p fs rule: struct_members.induct)
  case (2 p n t fs)
  then show ?case using align_up_ge [of "alignof t" p] by simp
qed simp

section \<open>Members\<close>

lemma struct_members_inside:
  "(n, q, t) \<in> set (struct_members p fs) \<Longrightarrow>
    p \<le> q \<and> q + sizeof t \<le> struct_end p fs \<and> alignof t dvd q \<and> alignof t dvd fields_align fs"
proof (induction p fs rule: struct_members.induct)
  case (2 p m u fs)
  let ?here = "align_up p (alignof u)"
  have here: "p \<le> ?here" "?here + sizeof u \<le> struct_end (?here + sizeof u) fs"
    by (simp_all add: align_up_ge struct_end_ge)
  from "2.prems" consider "(n, q, t) = (m, ?here, u)" | "(n, q, t) \<in> set (struct_members (?here + sizeof u) fs)"
    by auto
  then show ?case
  proof cases
    case 1
    then show ?thesis using here alignof_dvd_fields(1) [of u m fs] by simp
  next
    case 2
    from "2.IH" [OF this] here alignof_dvd_fields(2) [of fs m u] show ?thesis by (auto intro: dvd_trans)
  qed
qed simp

lemma struct_members_disjoint:
  "sorted_wrt (\<lambda>(_, q, t) (_, r, _). q + sizeof t \<le> r) (struct_members p fs)"
proof (induction p fs rule: struct_members.induct)
  case (2 p m u fs)
  then show ?case using struct_members_inside by fastforce
qed simp

lemma union_members_inside:
  "(n, q, t) \<in> set (union_members fs) \<Longrightarrow> q = 0 \<and> sizeof t \<le> union_end fs \<and> alignof t dvd fields_align fs"
proof (induction fs rule: union_members.induct)
  case (2 m u fs)
  show ?case
  proof (cases "(n, q, t) = (m, 0, u)")
    case True
    then show ?thesis using alignof_dvd_fields(1) [of u m fs] by simp
  next
    case False
    with 2 have "q = 0 \<and> sizeof t \<le> union_end fs \<and> alignof t dvd fields_align fs" by auto
    then show ?thesis using alignof_dvd_fields(2) [of fs m u] by (auto intro: dvd_trans)
  qed
qed simp

section \<open>Paths\<close>

definition fits_in :: "nat \<Rightarrow> ctype \<Rightarrow> nat \<Rightarrow> nat \<Rightarrow> bool" where
  \<comment> \<open>a \<open>u\<close> at offset \<open>p\<close> lies before \<open>len\<close> and is aligned in an object aligned to \<open>al\<close>\<close>
  "fits_in p u len al \<longleftrightarrow> p + sizeof u \<le> len \<and> alignof u dvd p \<and> alignof u dvd al"

lemma fits_in_trans:
  "fits_in q v (sizeof u) (alignof u) \<Longrightarrow> fits_in p u len al \<Longrightarrow> fits_in (p + q) v len al"
  by (auto simp: fits_in_def intro: dvd_trans dvd_add)

lemma fits_in_mono: "fits_in p u len al \<Longrightarrow> len \<le> len' \<Longrightarrow> al dvd al' \<Longrightarrow> fits_in p u len' al'"
  by (auto simp: fits_in_def intro: dvd_trans)

lemma find_in_struct_cases:
  assumes "find_in_struct p (Field n t fs) name = Some (q, u)"
  shows "q = align_up p (alignof t) \<and> u = t \<or>
    (\<exists>d. find_member t name = Some (d, u) \<and> q = align_up p (alignof t) + d) \<or>
    find_in_struct (align_up p (alignof t) + sizeof t) fs name = Some (q, u)"
proof (cases "n = name \<and> n \<noteq> []")
  case True
  then have "n = name" "name \<noteq> []" by auto
  then show ?thesis using assms by (auto simp: Let_def)
next
  case False
  then show ?thesis
    using assms by (cases "n = []"; cases "find_member t name") (auto simp: Let_def)
qed

lemma find_in_union_cases:
  assumes "find_in_union (Field n t fs) name = Some (q, u)"
  shows "q = 0 \<and> u = t \<or> find_member t name = Some (q, u) \<or> find_in_union fs name = Some (q, u)"
proof (cases "n = name \<and> n \<noteq> []")
  case True
  then have "n = name" "name \<noteq> []" by auto
  then show ?thesis using assms by (simp add: Let_def)
next
  case False
  then show ?thesis
    using assms by (cases "n = []"; cases "find_member t name") auto
qed

lemma find_fits:
  "\<forall>name q u. find_member t name = Some (q, u) \<longrightarrow> fits_in q u (sizeof t) (alignof t)"
  "\<forall>name q u. (\<forall>p. find_in_struct p fs name = Some (q, u) \<longrightarrow> fits_in q u (struct_end p fs) (fields_align fs)) \<and>
    (find_in_union fs name = Some (q, u) \<longrightarrow> fits_in q u (union_end fs) (fields_align fs))"
proof (induction t and fs rule: ctype.induct fields.induct)
  case (Struct_t fs)
  then show ?case by (auto intro: fits_in_mono [OF _ align_up_ge [OF alignof_pos(2)] dvd_refl])
next
  case (Union_t fs)
  then show ?case by (auto intro: fits_in_mono [OF _ align_up_ge [OF alignof_pos(2)] dvd_refl])
next
  case (Field n t fs)
  note up = alignof_dvd_fields(1) [of t n fs] alignof_dvd_fields(2) [of fs n t]
  have "fits_in q u (struct_end p (Field n t fs)) (fields_align (Field n t fs))"
    if found: "find_in_struct p (Field n t fs) name = Some (q, u)" for p name q u
  proof -
    let ?here = "align_up p (alignof t)"
    have here: "fits_in ?here t (struct_end p (Field n t fs)) (fields_align (Field n t fs))"
      using up by (simp add: fits_in_def struct_end_ge)
    consider "q = ?here" "u = t" | d where "find_member t name = Some (d, u)" "q = ?here + d"
      | "find_in_struct (?here + sizeof t) fs name = Some (q, u)"
      using find_in_struct_cases [OF found] by (elim disjE exE conjE) simp_all
    then show ?thesis
    proof cases
      case 1
      then show ?thesis using here by simp
    next
      case (2 d)
      then show ?thesis using Field.IH(1) fits_in_trans [OF _ here] by blast
    next
      case 3
      then have "fits_in q u (struct_end (?here + sizeof t) fs) (fields_align fs)" using Field.IH(2) by blast
      then show ?thesis by (rule fits_in_mono) (use up in simp_all)
    qed
  qed
  moreover have "fits_in q u (union_end (Field n t fs)) (fields_align (Field n t fs))"
    if found: "find_in_union (Field n t fs) name = Some (q, u)" for name q u
  proof -
    consider "q = 0" "u = t" | "find_member t name = Some (q, u)" | "find_in_union fs name = Some (q, u)"
      using find_in_union_cases [OF found] by (elim disjE conjE) simp_all
    then show ?thesis
    proof cases
      case 1
      then show ?thesis using up by (simp add: fits_in_def)
    next
      case 2
      then have "fits_in q u (sizeof t) (alignof t)" using Field.IH(1) by blast
      then show ?thesis by (rule fits_in_mono) (use up in simp_all)
    next
      case 3
      then have "fits_in q u (union_end fs) (fields_align fs)" using Field.IH(2) by blast
      then show ?thesis by (rule fits_in_mono) (use up in simp_all)
    qed
  qed
  ultimately show ?case by blast
qed auto

lemma resolve_fits: "resolve t path = Some (p, u) \<Longrightarrow> fits_in p u (sizeof t) (alignof t)"
proof (induction t path arbitrary: p u rule: resolve.induct)
  case (1 t)
  then show ?case by (simp add: fits_in_def)
next
  case (2 t a path)
  then obtain d v q where f: "find_member t a = Some (d, v)" "resolve v path = Some (q, u)" "p = d + q"
    by (auto split: option.splits)
  have "fits_in d v (sizeof t) (alignof t)" by (rule find_fits(1) [rule_format, OF f(1)])
  moreover have "fits_in q u (sizeof v) (alignof v)" by (rule "2.IH" [OF f(1) refl f(2)])
  ultimately show ?case unfolding f(3) by (rule fits_in_trans [rotated])
qed

section \<open>Bytes of an object\<close>

lemma length_store [simp]: "p + length bs \<le> length mem \<Longrightarrow> length (store p bs mem) = length mem"
  by (simp add: store_def)

lemma load_store: "p + length bs \<le> length mem \<Longrightarrow> take (length bs) (drop p (store p bs mem)) = bs"
  by (simp add: store_def)

lemma store_other:
  assumes "p + length bs \<le> length mem" "i < p \<or> p + length bs \<le> i"
  shows "store p bs mem ! i = mem ! i"
  using assms by (auto simp: store_def nth_append)

text \<open>An assignment through a path: the value is read back, every other byte stays.\<close>

lemma assign_stores:
  assumes "resolve t path = Some (p, u)" "length mem = sizeof t"
  shows "\<exists>mem'. assign t path v mem = Some mem' \<and> length mem' = sizeof t \<and>
    load t path mem' = Some (v mod 256 ^ sizeof u) \<and>
    (\<forall>i. i < p \<or> p + sizeof u \<le> i \<longrightarrow> mem' ! i = mem ! i)"
proof -
  have "p + sizeof u \<le> length mem" using resolve_fits [OF assms(1)] assms(2) by (simp add: fits_in_def)
  then have "p + length (le_bytes (sizeof u) v) \<le> length mem" by simp
  note * = length_store [OF this] load_store [OF this] store_other [OF this]
  show ?thesis
    using assms * by (simp add: assign_def load_def le_val_bytes)
qed

section \<open>struct-demo.c\<close>

text \<open>\<open>anonymous_inner_structit\<close>: the initialisers of \<open>var1\<close> are in declaration order, those of \<open>var2\<close> are
  named; members left out are zero.\<close>

datatype init_value = Int_v int | String_v string | Double_v int

definition var_members :: "(string \<times> init_value) list" where
  \<comment> \<open>with the zero of their types\<close>
  "var_members = [(''int_member'', Int_v 0), (''str_member'', String_v []), (''double_member'', Double_v 0)]"

definition init_in_order :: "init_value list \<Rightarrow> init_value list" where
  "init_in_order vs = vs @ map snd (drop (length vs) var_members)"

definition init_by_name :: "(string \<times> init_value) list \<Rightarrow> init_value list" where
  "init_by_name ds = map (\<lambda>(n, z). case map_of ds n of None \<Rightarrow> z | Some v \<Rightarrow> v) var_members"

fun show_value :: "init_value \<Rightarrow> string" where
  \<comment> \<open>\<open>%d\<close>, \<open>%s\<close>, \<open>%f\<close> (of a whole number)\<close>
  "show_value (Int_v i) = dec_of_int i" | "show_value (String_v s) = s"
| "show_value (Double_v i) = dec_of_int i @ ''.000000''"

definition anonymous_inner_structit :: "string list \<times> string list" where
  "anonymous_inner_structit =
     (map show_value (init_in_order [Int_v 111, String_v ''anonymous_var1'']),
      map show_value (init_by_name [(''str_member'', String_v ''anonymous_var2''), (''int_member'', Int_v 222)]))"

definition CHAR_ARRAY_LEN :: nat where "CHAR_ARRAY_LEN = 16"

definition struct_1 :: ctype where
  "struct_1 = Struct_t (Field ''member1'' Int_t (Field ''member2'' Long_t
     (Field ''member3'' (Array_t Char_t CHAR_ARRAY_LEN) No_field)))"

definition show_struct_memory_layout :: "nat \<times> (string \<times> nat \<times> nat) list" where
  \<comment> \<open>the size, then name, offset and size of each member\<close>
  "show_struct_memory_layout = (sizeof struct_1, map (\<lambda>(n, p, t). (n, p, sizeof t)) (members struct_1))"

definition inner_struct :: ctype where
  "inner_struct = Struct_t (Field ''tagged_struct_member'' Int_t No_field)"
definition named_struct :: ctype where
  "named_struct = Struct_t (Field ''named_struct_member'' Int_t No_field)"
definition inner_anonymous_struct :: ctype where
  "inner_anonymous_struct = Struct_t (Field ''tagged_anonymous_struct_member'' Int_t No_field)"

definition outer_struct :: ctype where
  \<comment> \<open>\<open>inner_anonymous_struct\<close> is declared inside it but is no member\<close>
  "outer_struct = Struct_t (Field [] (Struct_t (Field ''anonymous_struct_member'' Int_t No_field))
     (Field ''named_var'' named_struct (Field ''tagged_var'' inner_struct No_field)))"

definition assign_all :: "ctype \<Rightarrow> (string list \<times> nat) list \<Rightarrow> u8 list \<Rightarrow> u8 list option" where
  "assign_all t as mem = fold (\<lambda>(path, v) m. Option.bind m (assign t path v)) as (Some mem)"

definition show_nested_struct_type :: "u8 list \<Rightarrow> (nat list \<times> string) option" where
  \<comment> \<open>from what \<open>out\<close> holds at first: the sizes and the bytes printed\<close>
  "show_nested_struct_type out = map_option
     (\<lambda>mem. ([sizeof outer_struct, sizeof inner_struct, sizeof named_struct, sizeof inner_anonymous_struct],
        show_bytes mem))
     (assign_all outer_struct [([''anonymous_struct_member''], 1), ([''named_var'', ''named_struct_member''], 2),
        ([''tagged_var'', ''tagged_struct_member''], 3)] out)"

section \<open>union-demo.c\<close>

definition layout_union :: ctype where
  "layout_union = Union_t (Field [] (Struct_t (Field ''member_0_0'' Int_t No_field))
     (Field [] (Struct_t (Field ''member_1_0'' Long_t (Field ''member_1_1'' Int_t No_field))) No_field))"

definition show_union_layout :: "nat \<times> (nat \<times> nat) option list" where
  \<comment> \<open>the size, then offset and size of \<open>u.member_0_0\<close>, \<open>u.member_1_0\<close> and \<open>u.member_1_1\<close>\<close>
  "show_union_layout = (sizeof layout_union, map (\<lambda>n. map_option (\<lambda>(p, t). (p, sizeof t)) (resolve layout_union [n]))
     [''member_0_0'', ''member_1_0'', ''member_1_1''])"

definition inner_union :: ctype where "inner_union = Union_t (Field ''f3'' Llong_t No_field)"
definition named_union :: ctype where "named_union = Union_t (Field ''f2'' Uint_t No_field)"
definition inner_anonymous_union :: ctype where "inner_anonymous_union = Union_t (Field ''f4'' Llong_t No_field)"

definition outer_with_unions :: ctype where
  "outer_with_unions = Struct_t (Field [] (Union_t (Field ''f1'' Short_t No_field))
     (Field ''u1'' named_union (Field ''u2'' inner_union No_field)))"

definition show_union_in_struct :: "u8 list \<Rightarrow> (nat list \<times> string) option" where
  \<comment> \<open>\<open>out.u2.f3 = 0x3UL << 56; out.u1.f2 = 0x2U << 24; out.f1 |= 1\<close>\<close>
  "show_union_in_struct out = Option.bind
     (assign_all outer_with_unions [([''u2'', ''f3''], push_bit 56 3), ([''u1'', ''f2''], push_bit 24 2)] out)
     (\<lambda>m. Option.bind (load outer_with_unions [''f1''] m)
       (\<lambda>f1. map_option (\<lambda>mem. ([sizeof outer_with_unions, sizeof inner_union, sizeof named_union,
            sizeof inner_anonymous_union], show_bytes mem))
         (assign outer_with_unions [''f1''] (Bit_Operations.or f1 1) m)))"

section \<open>What the demos print\<close>

lemma three_assignments:
  "length mem = 12 \<Longrightarrow> assign_all outer_struct [([''anonymous_struct_member''], 1),
     ([''named_var'', ''named_struct_member''], 2), ([''tagged_var'', ''tagged_struct_member''], 3)] mem =
   Some [1, 0, 0, 0, 2, 0, 0, 0, 3, 0, 0, 0]"
proof -
  assume len: "length mem = 12"
  have r: "resolve outer_struct [''anonymous_struct_member''] = Some (0, Int_t)"
    "resolve outer_struct [''named_var'', ''named_struct_member''] = Some (4, Int_t)"
    "resolve outer_struct [''tagged_var'', ''tagged_struct_member''] = Some (8, Int_t)"
    by code_simp+
  have b: "le_bytes 4 1 = [1, 0, 0, 0]" "le_bytes 4 2 = [2, 0, 0, 0]" "le_bytes 4 3 = [3, 0, 0, 0]"
    by code_simp+
  show ?thesis using len by (simp add: assign_all_def assign_def r b store_def del: resolve.simps One_nat_def)
qed

lemma le_bytes_or_one:
  "le_bytes 2 (Bit_Operations.or (le_val [a, b]) 1) = [Bit_Operations.or a 1, b]"
proof -
  let ?n = "unat a + 256 * unat b"
  have "(256 :: u8) = 0" by simp
  then have "word_of_nat ?n = a" by (simp only: of_nat_add of_nat_mult of_nat_numeral) simp
  then have low: "(word_of_nat (Bit_Operations.or ?n 1) :: u8) = Bit_Operations.or a 1"
    by (simp only: of_nat_or_eq of_nat_1)
  have "drop_bit 8 (Bit_Operations.or ?n 1) = drop_bit 8 ?n"
    by (simp only: drop_bit_or) (simp add: drop_bit_eq_div)
  moreover have "unat a < 256" using unsigned_less [of a] by simp
  ultimately have "Bit_Operations.or ?n 1 div 256 = unat b" by (simp add: drop_bit_eq_div)
  with low show ?thesis by (simp add: numeral_2_eq_2 del: One_nat_def)
qed

lemma union_assignments:
  assumes "mem = [a, b, c, d] @ rest" "length rest = 12"
  shows "show_union_in_struct mem = Some ([16, 8, 4, 8],
    show_bytes [Bit_Operations.or a 1, b, c, d, 0, 0, 0, 2, 0, 0, 0, 0, 0, 0, 0, 3])"
proof -
  let ?mem = "[a, b, c, d, 0, 0, 0, 2, 0, 0, 0, 0, 0, 0, 0, 3]"
  have r: "resolve outer_with_unions [''u2'', ''f3''] = Some (8, Llong_t)"
    "resolve outer_with_unions [''u1'', ''f2''] = Some (4, Uint_t)"
    "resolve outer_with_unions [''f1''] = Some (0, Short_t)"
    and s: "sizeof outer_with_unions = 16" "sizeof inner_union = 8" "sizeof named_union = 4" "sizeof inner_anonymous_union = 8"
    by code_simp+
  have n: "(8 :: nat) = Suc (Suc (Suc (Suc (Suc (Suc (Suc (Suc 0)))))))" "(4 :: nat) = Suc (Suc (Suc (Suc 0)))" by simp_all
  have b: "le_bytes 8 (push_bit 56 3) = [0, 0, 0, 0, 0, 0, 0, 3]" "le_bytes 4 (push_bit 24 2) = [0, 0, 0, 2]"
    unfolding n le_bytes.simps by (simp_all add: push_bit_eq_mult)
  have "assign outer_with_unions [''u2'', ''f3''] (push_bit 56 3) mem =
      Some ([a, b, c, d] @ take 4 rest @ [0, 0, 0, 0, 0, 0, 0, 3])"
    using assms by (simp only: assign_def r b option.case prod.case sizeof.simps) (simp add: store_def)
  moreover have "assign outer_with_unions [''u1'', ''f2''] (push_bit 24 2)
      ([a, b, c, d] @ take 4 rest @ [0, 0, 0, 0, 0, 0, 0, 3]) = Some ?mem"
    using assms by (simp only: assign_def r b option.case prod.case sizeof.simps) (simp add: store_def)
  moreover have "load outer_with_unions [''f1''] ?mem = Some (le_val [a, b])"
    by (simp only: load_def r option.case prod.case sizeof.simps) simp
  moreover have "assign outer_with_unions [''f1''] (Bit_Operations.or (le_val [a, b]) 1) ?mem =
      Some [Bit_Operations.or a 1, b, c, d, 0, 0, 0, 2, 0, 0, 0, 0, 0, 0, 0, 3]"
    by (simp only: assign_def r option.case prod.case sizeof.simps le_bytes_or_one) (simp add: store_def)
  ultimately show ?thesis
    by (simp only: show_union_in_struct_def assign_all_def fold.simps o_def prod.case Option.bind.bind_lunit id_apply
        option.map(2) s)
qed

section \<open>Properties\<close>

text \<open>
  the layout is sound. Whatever path \<open>a.b.c\<close> the language accepts on an object of any type, through named
  and unnamed structures and unions, the member it denotes lies inside the object and is aligned when the
  object is; the members of a structure do not overlap and are in declaration order; a value assigned through
  the path is read back (reduced to the member's width), and no byte outside of the member changes.
\<close>
lemma layout_sound:
  assumes "resolve t path = Some (p, u)"
  shows "p + sizeof u \<le> sizeof t \<and> alignof u dvd p \<and> alignof u dvd alignof t \<and> alignof t dvd sizeof t \<and>
    (\<forall>fs. t = Struct_t fs \<longrightarrow> sorted_wrt (\<lambda>(_, q, v) (_, r, _). q + sizeof v \<le> r) (members t)) \<and>
    (\<forall>v mem. length mem = sizeof t \<longrightarrow> (\<exists>mem'. assign t path v mem = Some mem' \<and> length mem' = sizeof t \<and>
      load t path mem' = Some (v mod 256 ^ sizeof u) \<and>
      (\<forall>i. i < p \<or> p + sizeof u \<le> i \<longrightarrow> mem' ! i = mem ! i)))"
  using resolve_fits [OF assms] assign_stores [OF assms] struct_members_disjoint
  by (simp add: fits_in_def alignof_dvd_sizeof)

text \<open>
  what the structure demo prints, whatever the objects hold before they are assigned. The three members
  of \<open>struct_1\<close> are at 0, 8 and 16 in 32 bytes; the nested structure has 12 bytes, all determined by the three
  assignments; unspecified initialisers are zero. The accesses that the comments call invalid
  (\<open>out.named_struct_member\<close>, \<open>out.tagged_struct_member\<close>, \<open>out.tagged_anonymous_struct_member\<close>) are refused.
\<close>
theorem struct_demo_output:
  "show_struct_memory_layout = (32, [(''member1'', 0, 4), (''member2'', 8, 8), (''member3'', 16, 16)]) \<and>
   (length out = sizeof outer_struct \<longrightarrow>
      show_nested_struct_type out = Some ([12, 4, 4, 4], '' 1 0 0 0 2 0 0 0 3 0 0 0'')) \<and>
   anonymous_inner_structit = ([''111'', ''anonymous_var1'', ''0.000000''], [''222'', ''anonymous_var2'', ''0.000000'']) \<and>
   resolve outer_struct [''named_struct_member''] = None \<and> resolve outer_struct [''tagged_struct_member''] = None \<and>
   resolve outer_struct [''tagged_anonymous_struct_member''] = None"
proof -
  have "show_struct_memory_layout = (32, [(''member1'', 0, 4), (''member2'', 8, 8), (''member3'', 16, 16)])"
    "anonymous_inner_structit = ([''111'', ''anonymous_var1'', ''0.000000''], [''222'', ''anonymous_var2'', ''0.000000''])"
    "resolve outer_struct [''named_struct_member''] = None" "resolve outer_struct [''tagged_struct_member''] = None"
    "resolve outer_struct [''tagged_anonymous_struct_member''] = None"
    by code_simp+
  moreover have "sizeof outer_struct = 12"
    "[sizeof outer_struct, sizeof inner_struct, sizeof named_struct, sizeof inner_anonymous_struct] = [12, 4, 4, 4]"
    "show_bytes [1, 0, 0, 0, 2, 0, 0, 0, 3, 0, 0, 0] = '' 1 0 0 0 2 0 0 0 3 0 0 0''"
    by code_simp+
  ultimately show ?thesis
    using three_assignments [of out] by (simp only: show_nested_struct_type_def) simp
qed

text \<open>
  what the union demo prints. The union has 16 bytes and all three members start at 0 but the second of the
  second structure, at 8; in the structure of 16 bytes everything but the byte of \<open>f1\<close>'s upper half and the
  two bytes of padding is determined, the lowest bit of \<open>f1\<close> is set, and those three bytes keep what they were.
  The accesses the comments call invalid (\<open>out.f4\<close>, \<open>out.f3\<close>, \<open>out.f2\<close>) are refused.
\<close>
theorem union_demo_output:
  "show_union_layout = (16, [Some (0, 4), Some (0, 8), Some (8, 4)]) \<and>
   (length rest = 12 \<longrightarrow> show_union_in_struct ([a, b, c, d] @ rest) = Some ([16, 8, 4, 8],
      show_bytes [Bit_Operations.or a 1, b, c, d, 0, 0, 0, 2, 0, 0, 0, 0, 0, 0, 0, 3])) \<and>
   resolve outer_with_unions [''f4''] = None \<and> resolve outer_with_unions [''f3''] = None \<and>
   resolve outer_with_unions [''f2''] = None"
proof -
  have "show_union_layout = (16, [Some (0, 4), Some (0, 8), Some (8, 4)])"
    "resolve outer_with_unions [''f4''] = None" "resolve outer_with_unions [''f3''] = None"
    "resolve outer_with_unions [''f2''] = None"
    by code_simp+
  then show ?thesis using union_assignments [OF refl] by blast
qed

text \<open>The names that the four types of the demos accept.\<close>

lemma accepted_names:
  "resolve struct_1 [n] = map_of [(''member1'', (0, Int_t)), (''member2'', (8, Long_t)),
     (''member3'', (16, Array_t Char_t 16))] n"
  "resolve outer_struct [n] = map_of [(''anonymous_struct_member'', (0, Int_t)), (''named_var'', (4, named_struct)),
     (''tagged_var'', (8, inner_struct))] n"
  "resolve layout_union [n] = map_of [(''member_0_0'', (0, Int_t)), (''member_1_0'', (0, Long_t)),
     (''member_1_1'', (8, Int_t))] n"
  "resolve outer_with_unions [n] = map_of [(''f1'', (0, Short_t)), (''u1'', (4, named_union)), (''u2'', (8, inner_union))] n"
  by (auto simp: struct_1_def CHAR_ARRAY_LEN_def outer_struct_def named_struct_def inner_struct_def layout_union_def
      outer_with_unions_def named_union_def inner_union_def align_up_def Let_def numeral_2_eq_2 [symmetric])

lemma accepted_pairs:
  "resolve outer_struct [n, m] = map_of [((''named_var'', ''named_struct_member''), (4, Int_t)),
     ((''tagged_var'', ''tagged_struct_member''), (8, Int_t))] (n, m)"
  "resolve outer_with_unions [n, m] = map_of [((''u1'', ''f2''), (4, Uint_t)), ((''u2'', ''f3''), (8, Llong_t))] (n, m)"
  by (auto simp: outer_struct_def named_struct_def inner_struct_def
      outer_with_unions_def named_union_def inner_union_def align_up_def Let_def numeral_2_eq_2 [symmetric])

text \<open>
  C16: the types of both demos and what the programs show of them. Of each type exactly these names are accepted, with
  these offsets and types: so the member of an unnamed structure or union is reached directly, a member of a named one
  only through it, and the tagged structures and unions without a declarator give no member, as the comments say.
  The programs print the sizes and offsets, and the bytes of their objects: the
  structure is determined by the three assignments, whatever it held; in the object with unions the
  lowest bit of \<open>f1\<close> is set and only the rest of \<open>f1\<close> and the two bytes of padding keep what they were.
  Assigning to any accepted path of the four types changes the bytes of that member only, and the
  value is read back, reduced to the width of the member.
\<close>
theorem demo_types_layout:
  assumes "length out = sizeof outer_struct" "length uout = sizeof outer_with_unions"
  shows "resolve struct_1 [n] = map_of [(''member1'', (0, Int_t)), (''member2'', (8, Long_t)),
       (''member3'', (16, Array_t Char_t 16))] n \<and>
    resolve outer_struct [n] = map_of [(''anonymous_struct_member'', (0, Int_t)), (''named_var'', (4, named_struct)),
       (''tagged_var'', (8, inner_struct))] n \<and>
    resolve outer_struct [n, m] = map_of [((''named_var'', ''named_struct_member''), (4, Int_t)),
       ((''tagged_var'', ''tagged_struct_member''), (8, Int_t))] (n, m) \<and>
    resolve layout_union [n] = map_of [(''member_0_0'', (0, Int_t)), (''member_1_0'', (0, Long_t)),
       (''member_1_1'', (8, Int_t))] n \<and>
    resolve outer_with_unions [n] = map_of [(''f1'', (0, Short_t)), (''u1'', (4, named_union)), (''u2'', (8, inner_union))] n \<and>
    resolve outer_with_unions [n, m] = map_of [((''u1'', ''f2''), (4, Uint_t)), ((''u2'', ''f3''), (8, Llong_t))] (n, m) \<and>
    show_struct_memory_layout = (32, [(''member1'', 0, 4), (''member2'', 8, 8), (''member3'', 16, 16)]) \<and>
    show_nested_struct_type out = Some ([12, 4, 4, 4], '' 1 0 0 0 2 0 0 0 3 0 0 0'') \<and>
    show_union_layout = (16, [Some (0, 4), Some (0, 8), Some (8, 4)]) \<and>
    show_union_in_struct uout = Some ([16, 8, 4, 8], show_bytes
       (Bit_Operations.or (uout ! 0) 1 # take 3 (drop 1 uout) @ [0, 0, 0, 2, 0, 0, 0, 0, 0, 0, 0, 3])) \<and>
    (\<forall>t \<in> {struct_1, outer_struct, layout_union, outer_with_unions}. \<forall>path p u v mem.
       resolve t path = Some (p, u) \<and> length mem = sizeof t \<longrightarrow>
       (\<exists>mem'. assign t path v mem = Some mem' \<and> length mem' = sizeof t \<and>
          load t path mem' = Some (v mod 256 ^ sizeof u) \<and>
          (\<forall>i. i < p \<or> p + sizeof u \<le> i \<longrightarrow> mem' ! i = mem ! i)))"
proof -
  have "sizeof outer_with_unions = 16" by code_simp
  then have "length uout = 16" using assms(2) by simp
  then obtain a b c d rest where u: "uout = [a, b, c, d] @ rest" "length rest = 12"
    by (auto simp: numeral_eq_Suc length_Suc_conv)
  then have uout: "show_union_in_struct uout = Some ([16, 8, 4, 8], show_bytes
       (Bit_Operations.or (uout ! 0) 1 # take 3 (drop 1 uout) @ [0, 0, 0, 2, 0, 0, 0, 0, 0, 0, 0, 3]))"
    using union_assignments [OF u] by (simp add: numeral_eq_Suc)
  show ?thesis
    by (intro conjI ballI allI impI accepted_names accepted_pairs uout)
       (use struct_demo_output [of out] union_demo_output assms(1) layout_sound in blast)+
qed

section \<open>Witnesses\<close>

theorem demo_types_layout_witness:
  "show_nested_struct_type (replicate 12 7) = Some ([12, 4, 4, 4], '' 1 0 0 0 2 0 0 0 3 0 0 0'') \<and>
   resolve outer_struct [''tagged_anonymous_struct_member''] = None \<and>
   show_union_in_struct (replicate 16 6) = Some ([16, 8, 4, 8],
      show_bytes [7, 6, 6, 6, 0, 0, 0, 2, 0, 0, 0, 0, 0, 0, 0, 3])"
proof -
  have l: "length (replicate 12 7 :: u8 list) = sizeof outer_struct"
    "length (replicate 16 6 :: u8 list) = sizeof outer_with_unions"
    by code_simp+
  have "Bit_Operations.or ((replicate 16 6 :: u8 list) ! 0) 1 # take 3 (drop 1 (replicate 16 6)) @
      [0, 0, 0, 2, 0, 0, 0, 0, 0, 0, 0, 3] = [7, 6, 6, 6, 0, 0, 0, 2, 0, 0, 0, 0, 0, 0, 0, 3]"
    by (simp add: numeral_eq_Suc)
  then show ?thesis
    using demo_types_layout [OF l, of "''tagged_anonymous_struct_member''" "[]"] by simp
qed

theorem struct_demo_output_witness:
  "show_nested_struct_type (replicate 12 7) = Some ([12, 4, 4, 4], '' 1 0 0 0 2 0 0 0 3 0 0 0'')"
proof -
  have "length (replicate 12 7 :: u8 list) = sizeof outer_struct" by code_simp
  with struct_demo_output [of "replicate 12 7"] show ?thesis by blast
qed

theorem union_demo_output_witness:
  "show_union_in_struct ([0, 5, 6, 7] @ replicate 12 9) = Some ([16, 8, 4, 8],
      show_bytes [Bit_Operations.or 0 1, 5, 6, 7, 0, 0, 0, 2, 0, 0, 0, 0, 0, 0, 0, 3])"
  by (rule union_demo_output [THEN conjunct2, THEN conjunct1, rule_format, OF length_replicate])

end
