(* ===== verification/PerfCount.thy ===== *)
theory PerfCount
  imports Machine
begin

text \<open>
  The performance counter demo \<open>linux-c/perf-count.c\<close>: counting the instructions of a loop with one
  counter, and the TLB misses of random page accesses with a group of two counters whose results come in
  one read, each with the identifier of its event. The kernel's answers are the arguments \<open>instr_calls\<close> and
  \<open>tlb_calls\<close>; the test loops, the parsing of the group and every path to the cleanup labels are the model.
\<close>

datatype perf_res = Counter_fd int | Pages

definition opened :: "int \<Rightarrow> perf_res rev list" where
  "opened fd = (if fd = - 1 then [] else [Acquire (Counter_fd fd)])"

definition closed :: "int \<Rightarrow> perf_res rev list" where
  \<comment> \<open>\<open>close(-1)\<close> only fails\<close>
  "closed fd = (if fd = - 1 then [] else [Release (Counter_fd fd)])"

section \<open>Counting instructions\<close>

fun multiply_rounds :: "nat \<Rightarrow> u64 \<Rightarrow> u64" where
  \<comment> \<open>\<open>for (...) value *= value;\<close>\<close>
  "multiply_rounds 0 v = v"
| "multiply_rounds (Suc n) v = multiply_rounds n (v * v)"

record instr_calls =
  instr_fd :: int           \<comment> \<open>\<open>perf_event_open\<close>\<close>
  instr_open_errno :: int
  instr_read :: int         \<comment> \<open>what \<open>read\<close> returns\<close>
  instr_read_errno :: int   \<comment> \<open>\<open>errno\<close> after it\<close>
  num_instr :: u64

type_synonym instr_line = "u64 \<times> u64 \<times> u64"  \<comment> \<open>rounds, instructions, the product\<close>

definition count_instructions :: "instr_calls \<Rightarrow> u64 \<Rightarrow> int \<times> instr_line list \<times> perf_res rev list" where
  "count_instructions c num_rounds =
     (let fd = instr_fd c in
      if fd = - 1 then (- instr_open_errno c, [], opened fd @ closed fd)
      else let value = multiply_rounds (unat num_rounds) 11 in
        if instr_read c \<noteq> 8 then (- instr_read_errno c, [], opened fd @ closed fd)
        else (0, [(num_rounds, num_instr c, value)], opened fd @ closed fd))"

section \<open>Counting TLB misses\<close>

record tlb_calls =
  map_ok :: bool
  page_size :: u64
  random :: "nat \<Rightarrow> u64"     \<comment> \<open>the sequence \<open>random()\<close> returns\<close>
  access_fd :: int
  miss_fd :: int
  access_event_id :: u64
  miss_event_id :: u64
  tlb_read :: int
  tlb_read_errno :: int
  group_values :: "(u64 \<times> u64) \<times> (u64 \<times> u64)"  \<comment> \<open>value and id of each record\<close>

definition read_page_byte :: "u64 \<Rightarrow> u64 \<Rightarrow> int option" where
  \<comment> \<open>a byte of the fresh anonymous mapping of \<open>len\<close> bytes; \<open>None\<close> outside of it\<close>
  "read_page_byte len off = (if off < len then Some 0 else None)"

definition access_offset :: "tlb_calls \<Rightarrow> u64 \<Rightarrow> nat \<Rightarrow> u64" where
  "access_offset c num_pages i = (random c i mod num_pages) * page_size c"

fun access_pages :: "tlb_calls \<Rightarrow> u64 \<Rightarrow> nat \<Rightarrow> int option" where
  \<comment> \<open>\<open>result\<close> after the first accesses\<close>
  "access_pages c num_pages 0 = Some 0"
| "access_pages c num_pages (Suc i) = (case access_pages c num_pages i of
     None \<Rightarrow> None
   | Some result \<Rightarrow> (case read_page_byte (num_pages * page_size c) (access_offset c num_pages i) of
       None \<Rightarrow> None | Some b \<Rightarrow> Some (result + b)))"

definition group_result :: "tlb_calls \<Rightarrow> (u64 \<times> u64) option" where
  \<comment> \<open>misses and accesses; \<open>None\<close> if the identifiers do not match\<close>
  "group_result c = (case group_values c of ((v0, id0), (v1, id1)) \<Rightarrow>
     if id0 = access_event_id c \<and> id1 = miss_event_id c then Some (v1, v0)
     else if id1 = access_event_id c \<and> id0 = miss_event_id c then Some (v0, v1)
     else None)"

type_synonym tlb_line = "u64 \<times> u64 \<times> u64 \<times> int"  \<comment> \<open>pages, misses, accesses, \<open>result\<close>\<close>

definition count_tlb_misses :: "tlb_calls \<Rightarrow> u64 \<Rightarrow> (int \<times> tlb_line list \<times> perf_res rev list) outcome" where
  "count_tlb_misses c num_pages =
     (if \<not> map_ok c then Running (- ENOMEM, [], [])
      else
      let start = Acquire Pages # opened (access_fd c) @ opened (miss_fd c);
          out_unmap = [Release Pages];
          out_close = closed (miss_fd c) @ closed (access_fd c) @ out_unmap in
      if access_fd c = - 1 \<or> miss_fd c = - 1 then Running (- 1, [], start @ out_unmap)
      else case access_pages c num_pages (unat (16 * num_pages)) of
        None \<Rightarrow> Crashed
      | Some result \<Rightarrow>
        if tlb_read c \<noteq> 40 then Running (- tlb_read_errno c, [], start @ out_close)
        else case group_result c of
          None \<Rightarrow> Running (0, [], start @ out_close)
        | Some (dtlb_miss, dtlb_access) \<Rightarrow>
            Running (0, [(num_pages, dtlb_miss, dtlb_access, result)], start @ out_close))"

section \<open>main\<close>

fun while_zero :: "(nat \<Rightarrow> (int \<times> 'l list) outcome) \<Rightarrow> nat list \<Rightarrow> int \<Rightarrow> (int \<times> 'l list) outcome" where
  \<comment> \<open>\<open>for (i = 1; i <= 4 && ret == 0; i++) ret = ...\<close>\<close>
  "while_zero f [] ret = Running (ret, [])"
| "while_zero f (i # is') ret =
     (if ret \<noteq> 0 then Running (ret, [])
      else bind_outcome (f i) (\<lambda>(r, out).
        bind_outcome (while_zero f is' r) (\<lambda>(r', out'). Running (r', out @ out'))))"

definition perf_main :: "(nat \<Rightarrow> instr_calls) \<Rightarrow> (nat \<Rightarrow> tlb_calls) \<Rightarrow> (int \<times> instr_line list \<times> tlb_line list) outcome" where
  "perf_main ic tc =
     bind_outcome (while_zero (\<lambda>i. case count_instructions (ic i) (word_of_nat i * 0x800000) of
         (r, out, _) \<Rightarrow> Running (r, out)) [1, 2, 3, 4] 0) (\<lambda>(ret, lines).
     bind_outcome (while_zero (\<lambda>i. bind_outcome (count_tlb_misses (tc i) (word_of_nat i * 0x200000))
         (\<lambda>(r, out, _). Running (r, out))) [1, 2, 3, 4] ret) (\<lambda>(ret', lines').
     Running (ret', lines, lines')))"

section \<open>Lemmas\<close>

lemma multiply_rounds_power: "multiply_rounds n v = v ^ 2 ^ n"
proof (induction n arbitrary: v)
  case (Suc n)
  have "multiply_rounds (Suc n) v = (v * v) ^ 2 ^ n" using Suc by simp
  also have "\<dots> = v ^ 2 ^ Suc n" by (simp add: power2_eq_square [symmetric] power_mult [symmetric])
  finally show ?case .
qed simp

lemma multiply_rounds_add: "multiply_rounds (m + n) v = multiply_rounds n (multiply_rounds m v)"
  by (induction m arbitrary: v) auto

lemma multiply_rounds_one: "multiply_rounds n 1 = 1"
  by (induction n) auto

text \<open>Squaring 62 times takes every odd 64-bit number to 1, and 11 in particular: from then on the product
  does not depend on the number of rounds.\<close>

lemma multiply_rounds_11: "62 \<le> n \<Longrightarrow> multiply_rounds n 11 = 1"
proof -
  assume n: "62 \<le> n"
  have "multiply_rounds 62 11 = 1" by code_simp
  then show ?thesis using multiply_rounds_add [of 62 "n - 62" 11] n by (simp add: multiply_rounds_one)
qed

lemma page_offset_less:
  fixes x n ps :: u64
  assumes "unat x < unat n" "0 < ps" "unat n * unat ps < 2 ^ 64"
  shows "x * ps < n * ps"
proof -
  have "unat (x * ps) \<le> unat x * unat ps" by (simp add: unat_word_ariths)
  also have "\<dots> < unat n * unat ps" using assms(1,2) by (simp add: word_less_nat_alt)
  also have "\<dots> = unat (n * ps)" using assms(3) by (simp add: unat_word_ariths)
  finally show ?thesis by (simp add: word_less_nat_alt)
qed

lemma access_pages_inside:
  assumes "0 < num_pages" "unat num_pages * unat (page_size c) < 2 ^ 64" "0 < page_size c"
  shows "access_pages c num_pages n = Some 0"
proof (induction n)
  case (Suc n)
  have "unat (random c n mod num_pages) < unat num_pages"
    using assms(1) by (simp add: unat_mod word_less_nat_alt)
  from page_offset_less [OF this assms(3,2)] Suc show ?case
    by (simp add: read_page_byte_def access_offset_def)
qed simp

lemma count_instructions_balanced: "count_instructions c n = (r, out, t) \<Longrightarrow> balanced t"
  by (auto simp: count_instructions_def Let_def opened_def closed_def balanced_def split: if_splits)

definition lost_counters :: "tlb_calls \<Rightarrow> perf_res multiset" where
  \<comment> \<open>the descriptors that stay open\<close>
  "lost_counters c = (if \<not> map_ok c \<or> access_fd c \<noteq> - 1 \<and> miss_fd c \<noteq> - 1 then {#}
     else if access_fd c \<noteq> - 1 then {#Counter_fd (access_fd c)#}
     else if miss_fd c \<noteq> - 1 then {#Counter_fd (miss_fd c)#} else {#})"

lemma trace_of_open_counters:
  assumes "access_fd c \<noteq> - 1" "miss_fd c \<noteq> - 1"
  shows "leaks (Acquire Pages # opened (access_fd c) @ opened (miss_fd c) @
    closed (miss_fd c) @ closed (access_fd c) @ [Release Pages]) {#}"
  using assms by (simp add: opened_def closed_def leaks_def)

lemma tlb_cases:
  assumes "0 < num_pages" "unat num_pages * unat (page_size c) < 2 ^ 64" "0 < page_size c"
  shows "\<exists>t. leaks t (lost_counters c) \<and> count_tlb_misses c num_pages =
    (if \<not> map_ok c then Running (- ENOMEM, [], t)
     else if access_fd c = - 1 \<or> miss_fd c = - 1 then Running (- 1, [], t)
     else if tlb_read c \<noteq> 40 then Running (- tlb_read_errno c, [], t)
     else case group_result c of None \<Rightarrow> Running (0, [], t)
       | Some (m, a) \<Rightarrow> Running (0, [(num_pages, m, a, 0)], t))"
proof (cases "map_ok c \<and> access_fd c \<noteq> - 1 \<and> miss_fd c \<noteq> - 1")
  case True
  then have "lost_counters c = {#}" by (simp add: lost_counters_def)
  then show ?thesis
    using True trace_of_open_counters [of c] access_pages_inside [OF assms]
    by (auto simp: count_tlb_misses_def Let_def split: option.split)
next
  case False
  then show ?thesis
    by (auto simp: count_tlb_misses_def Let_def lost_counters_def leaks_def opened_def)
qed

lemma group_result_iff:
  "access_event_id c \<noteq> miss_event_id c \<Longrightarrow> group_result c = Some (m, a) \<longleftrightarrow>
    {#fst (group_values c), snd (group_values c)#} = {#(a, access_event_id c), (m, miss_event_id c)#}"
  by (cases "group_values c") (auto simp: group_result_def add_eq_conv_diff split: if_splits)

lemma while_zero_runs:
  assumes "\<And>i. i \<in> set is' \<Longrightarrow> f i = Running (g i)"
  shows "\<exists>r out. while_zero f is' ret = Running (r, out) \<and> set out \<subseteq> (\<Union>i \<in> set is'. set (snd (g i))) \<and>
    (r = 0 \<longrightarrow> ret = 0 \<and> out = concat (map (\<lambda>i. snd (g i)) is') \<and> (\<forall>i \<in> set is'. fst (g i) = 0))"
  using assms
proof (induction is' arbitrary: ret)
  case (Cons i is')
  show ?case
  proof (cases "ret = 0")
    case True
    obtain r out where g: "g i = (r, out)" by fastforce
    from Cons.IH [of r] Cons.prems obtain r' out' where
      "while_zero f is' r = Running (r', out')" "set out' \<subseteq> (\<Union>i \<in> set is'. set (snd (g i)))"
      "r' = 0 \<longrightarrow> r = 0 \<and> out' = concat (map (\<lambda>i. snd (g i)) is') \<and> (\<forall>i \<in> set is'. fst (g i) = 0)" by auto
    with True g Cons.prems show ?thesis by auto
  next
    case False
    then show ?thesis by simp
  qed
qed simp

definition instr_result :: "(nat \<Rightarrow> instr_calls) \<Rightarrow> nat \<Rightarrow> int \<times> instr_line list" where
  "instr_result ic i = (case count_instructions (ic i) (word_of_nat i * 0x800000) of (r, out, _) \<Rightarrow> (r, out))"

lemma instr_result_lines:
  assumes "i \<in> {1, 2, 3, 4}"
  shows "(n, k, v) \<in> set (snd (instr_result ic i)) \<Longrightarrow> v = 1"
    and "fst (instr_result ic i) = 0 \<Longrightarrow> instr_fd (ic i) \<noteq> - 1 \<Longrightarrow> instr_read (ic i) = 8 \<Longrightarrow>
      map fst (snd (instr_result ic i)) = [word_of_nat i * 0x800000]"
proof -
  have "62 \<le> unat (word_of_nat i * 0x800000 :: u64)" using assms by auto
  from multiply_rounds_11 [OF this]
  show "(n, k, v) \<in> set (snd (instr_result ic i)) \<Longrightarrow> v = 1"
    by (auto simp: instr_result_def count_instructions_def Let_def split: if_splits)
qed (simp add: instr_result_def count_instructions_def Let_def)

section \<open>Properties\<close>

text \<open>
  C28: the TLB demo in every case. With at least one page and a mapping that fits the address space every random
  access is inside the mapping and the sum read is 0. The result is \<open>-ENOMEM\<close>, -1 or \<open>-errno\<close> for a failed
  mapping, counter or read. The misses and accesses are those of the two records with the identifiers of the two
  events, in whichever order the kernel gives them; with any other identifiers nothing is printed and 0
  is returned. The mapping and both counters are released, except that one counter stays open when
  only the other could not be opened.
\<close>
theorem tlb_misses_result:
  assumes "0 < num_pages" "unat num_pages * unat (page_size c) < 2 ^ 64" "0 < page_size c"
    and "access_event_id c \<noteq> miss_event_id c"
  shows "(\<exists>t. leaks t (lost_counters c) \<and> count_tlb_misses c num_pages =
    (if \<not> map_ok c then Running (- ENOMEM, [], t)
     else if access_fd c = - 1 \<or> miss_fd c = - 1 then Running (- 1, [], t)
     else if tlb_read c \<noteq> 40 then Running (- tlb_read_errno c, [], t)
     else case group_result c of None \<Rightarrow> Running (0, [], t)
       | Some (m, a) \<Rightarrow> Running (0, [(num_pages, m, a, 0)], t))) \<and>
    (\<forall>m a. group_result c = Some (m, a) \<longleftrightarrow>
      {#fst (group_values c), snd (group_values c)#} = {#(a, access_event_id c), (m, miss_event_id c)#})"
  using tlb_cases [OF assms(1-3)] group_result_iff [OF assms(4)] by (intro conjI allI)

text \<open>
  what the whole demo does. For every outcome of the system calls it ends normally, every product
  it prints is 1 (the 64-bit square of 11 reaches 1 long before the smallest number of rounds), and if it
  returns 0 and the four reads of the instruction counter were complete, the four round counts
  have been printed in order.
\<close>
theorem perf_main_result:
  assumes "\<And>i. i \<in> {1, 2, 3, 4} \<Longrightarrow> 0 < page_size (tc i) \<and> page_size (tc i) \<le> 0x10000"
  shows "\<exists>r ls ls'. perf_main ic tc = Running (r, ls, ls') \<and> (\<forall>(n, k, v) \<in> set ls. v = 1) \<and>
    (r = 0 \<and> (\<forall>i \<in> {1, 2, 3, 4}. instr_fd (ic i) \<noteq> - 1 \<and> instr_read (ic i) = 8) \<longrightarrow>
      map fst ls = [0x800000, 0x1000000, 0x1800000, 0x2000000])"
proof -
  let ?I = "[1, 2, 3, 4] :: nat list"
  let ?f = "\<lambda>i. bind_outcome (count_tlb_misses (tc i) (word_of_nat i * 0x200000)) (\<lambda>(r, out, _). Running (r, out))"
  obtain r ls where 1: "while_zero (\<lambda>i. Running (instr_result ic i)) ?I 0 = Running (r, ls)"
    "set ls \<subseteq> (\<Union>i \<in> set ?I. set (snd (instr_result ic i)))"
    "r = 0 \<longrightarrow> ls = concat (map (\<lambda>i. snd (instr_result ic i)) ?I) \<and> (\<forall>i \<in> set ?I. fst (instr_result ic i) = 0)"
    using while_zero_runs [of ?I "\<lambda>i. Running (instr_result ic i)" "instr_result ic" 0] by auto
  have "\<exists>q. ?f i = Running q" if i: "i \<in> set ?I" for i
  proof -
    let ?n = "word_of_nat i * 0x200000 :: u64"
    have n: "0 < ?n" "unat ?n \<le> 0x800000" using i by auto
    have "unat (page_size (tc i)) \<le> 0x10000" using assms [of i] i by (auto simp: word_le_nat_alt)
    with n(2) have "unat ?n * unat (page_size (tc i)) \<le> 0x800000 * 0x10000" by (rule mult_le_mono)
    then have "unat ?n * unat (page_size (tc i)) < 2 ^ 64" by simp
    from tlb_cases [OF n(1) this] assms [of i] i show ?thesis by (auto split: option.splits)
  qed
  then obtain g where "\<And>i. i \<in> set ?I \<Longrightarrow> ?f i = Running (g i)" by metis
  from while_zero_runs [of ?I ?f g r, OF this] obtain r' ls' where
    2: "while_zero ?f ?I r = Running (r', ls')" "r' = 0 \<longrightarrow> r = 0" by blast
  have "perf_main ic tc = Running (r', ls, ls')"
    using 1(1) 2(1) by (simp only: perf_main_def instr_result_def [symmetric] bind_outcome.simps prod.case
      prod.case_distrib [of Running, symmetric])
  moreover have "v = 1" if "(n, k, v) \<in> set ls" for n k v
  proof -
    from that 1(2) obtain i where "i \<in> {1, 2, 3, 4}" "(n, k, v) \<in> set (snd (instr_result ic i))" by auto
    then show ?thesis by (rule instr_result_lines(1))
  qed
  moreover have "map fst ls = [0x800000, 0x1000000, 0x1800000, 0x2000000]"
    if "r' = 0" "\<forall>i \<in> {1, 2, 3, 4}. instr_fd (ic i) \<noteq> - 1 \<and> instr_read (ic i) = 8"
  proof -
    have "map fst (snd (instr_result ic i)) = [word_of_nat i * 0x800000]" if "i \<in> {1, 2, 3, 4}" for i
      using instr_result_lines(2) [OF that, of ic] that 1(3) 2(2) \<open>r' = 0\<close>
        \<open>\<forall>i \<in> {1, 2, 3, 4}. instr_fd (ic i) \<noteq> - 1 \<and> instr_read (ic i) = 8\<close> by auto
    then show ?thesis using 1(3) 2(2) that(1) by simp
  qed
  ultimately show ?thesis by auto
qed

section \<open>Witnesses\<close>

definition demo_tlb :: tlb_calls where
  "demo_tlb = \<lparr>map_ok = True, page_size = 0x1000, random = (\<lambda>i. word_of_nat (7 * i)), access_fd = 3, miss_fd = 4,
     access_event_id = 21, miss_event_id = 22, tlb_read = 40, tlb_read_errno = 0, group_values = ((9, 22), (64, 21))\<rparr>"

definition demo_instr :: instr_calls where
  "demo_instr = \<lparr>instr_fd = 3, instr_open_errno = 0, instr_read = 8, instr_read_errno = 0, num_instr = 99\<rparr>"

theorem tlb_misses_result_witness:
  "(\<exists>t. leaks t {#} \<and> count_tlb_misses demo_tlb 2 = Running (0, [(2, 9, 64, 0)], t)) \<and>
   (\<exists>t. leaks t {#Counter_fd 3#} \<and> count_tlb_misses (demo_tlb\<lparr>miss_fd := - 1\<rparr>) 2 = Running (- 1, [], t))"
  using tlb_misses_result [of 2 demo_tlb] tlb_misses_result [of 2 "demo_tlb\<lparr>miss_fd := - 1\<rparr>"]
  by (simp add: demo_tlb_def lost_counters_def group_result_def)

theorem perf_main_result_witness:
  "\<exists>r ls ls'. perf_main (\<lambda>_. demo_instr) (\<lambda>_. demo_tlb) = Running (r, ls, ls') \<and>
    (r = 0 \<longrightarrow> map fst ls = [0x800000, 0x1000000, 0x1800000, 0x2000000])"
proof -
  have "0 < page_size demo_tlb \<and> page_size demo_tlb \<le> 0x10000" "instr_fd demo_instr \<noteq> - 1 \<and> instr_read demo_instr = 8"
    by (simp_all add: demo_tlb_def demo_instr_def)
  with perf_main_result [of "\<lambda>_. demo_tlb" "\<lambda>_. demo_instr"] show ?thesis by auto
qed

end
