(* ===== verification/NumaDemo.thy ===== *)
theory NumaDemo
  imports Machine
begin

text \<open>
  The libnuma demo \<open>linux-c/libnuma-demo.c\<close>: memory is bound to a node (\<open>mbind_demo\<close>) or allocated on it
  (\<open>numa_alloc_onnode_demo\<close>), and \<open>verify_page_numa\<close> asks the kernel where its pages are. What the system
  calls return, and the node of every page (\<open>node_of\<close>), are arguments.
\<close>

section \<open>Asking for the node of pages\<close>

datatype numa_res = Pages_array | Status_array | Buffer_page nat | Node_mask | Node_memory

definition PAGE_COUNT :: nat where "PAGE_COUNT = 2"

record numa_calls =
  page_size :: u64
  malloc_pages :: bool
  malloc_status :: bool
  move_pages_errno :: "int option"   \<comment> \<open>\<open>Some\<close>: the call fails\<close>
  node_of :: "u64 \<Rightarrow> int"           \<comment> \<open>the node of the page at an address\<close>

fun check_status :: "int list \<Rightarrow> int \<Rightarrow> int" where
  \<comment> \<open>the loop over \<open>status\<close>\<close>
  "check_status [] nodeid = 0"
| "check_status (st # sts) nodeid = (if st \<noteq> nodeid then - 1 else check_status sts nodeid)"

definition verify_page_numa :: "numa_calls \<Rightarrow> u64 \<Rightarrow> nat \<Rightarrow> int \<Rightarrow> int \<times> numa_res rev list" where
  "verify_page_numa c buf num_pages nodeid =
     (if \<not> malloc_pages c then (ENOMEM, [])
      else if \<not> malloc_status c then (ENOMEM, [Acquire Pages_array])
      else
      let pages = map (\<lambda>i. buf + page_size c) [0..<num_pages];
          out_free = [Acquire Pages_array, Acquire Status_array, Release Status_array] in
      case move_pages_errno c of
        Some e \<Rightarrow> (e, out_free)
      | None \<Rightarrow> (check_status (map (node_of c) pages) nodeid, out_free))"

section \<open>The two demos\<close>

record bind_calls = numa_calls +
  max_node :: nat
  mmap_result :: "int + u64"         \<comment> \<open>\<open>errno\<close> or the address\<close>
  bitmask_ok :: bool
  mbind_errno :: "bool list \<Rightarrow> nat \<Rightarrow> int option"   \<comment> \<open>of the node mask and the number of nodes\<close>

definition num_nodes :: "bind_calls \<Rightarrow> nat" where
  \<comment> \<open>one more than there are when there is only one, for the kernel's sake\<close>
  "num_nodes c = (if max_node c + 1 = 1 then max_node c + 1 + 1 else max_node c + 1)"

definition node_mask :: "bind_calls \<Rightarrow> nat \<Rightarrow> bool list" where
  "node_mask c nodeid = (replicate (num_nodes c) False)[nodeid := True]"

definition mbind_demo :: "bind_calls \<Rightarrow> nat \<Rightarrow> int \<times> numa_res rev list" where
  "mbind_demo c nodeid =
     (case mmap_result c of
        Inl e \<Rightarrow> (e, [])
      | Inr buf \<Rightarrow>
        let mapped = map (\<lambda>i. Acquire (Buffer_page i)) [0..<PAGE_COUNT];
            out_unmap = [Release (Buffer_page 0)] in
        if \<not> bitmask_ok c then (ENOMEM, mapped @ out_unmap)
        else
        let out_free_bitmask = Release Node_mask # out_unmap in
        case mbind_errno c (node_mask c nodeid) (num_nodes c) of
          Some e \<Rightarrow> (e, mapped @ [Acquire Node_mask] @ out_free_bitmask)
        | None \<Rightarrow> (case verify_page_numa (numa_calls.truncate c) buf PAGE_COUNT (int nodeid) of
            (ret, t) \<Rightarrow> (ret, mapped @ [Acquire Node_mask] @ t @ out_free_bitmask)))"

definition numa_alloc_onnode_demo :: "numa_calls \<Rightarrow> u64 option \<Rightarrow> nat \<Rightarrow> (int \<times> numa_res rev list) outcome" where
  \<comment> \<open>the second argument is what \<open>numa_alloc_onnode\<close> returns; \<open>memset\<close> of NULL crashes\<close>
  "numa_alloc_onnode_demo c alloc nodeid = (case alloc of
     None \<Rightarrow> Crashed
   | Some buf \<Rightarrow> (case verify_page_numa c buf PAGE_COUNT (int nodeid) of
       (ret, t) \<Rightarrow> Running (ret, [Acquire Node_memory] @ t @ [Release Node_memory])))"

definition next_node :: "nat \<Rightarrow> nat \<Rightarrow> nat" where
  \<comment> \<open>\<open>if (--nodeid < 0) nodeid = max_nodeid;\<close>\<close>
  "next_node max_nodeid nodeid = (if nodeid = 0 then max_nodeid else nodeid - 1)"

definition numa_main :: "bool \<Rightarrow> bind_calls \<Rightarrow> numa_calls \<Rightarrow> u64 option \<Rightarrow> (int \<times> numa_res rev list) outcome" where
  "numa_main available bc ac alloc =
     (if \<not> available then Running (- 1, [])
      else
      let nodeid = max_node bc in
      case mbind_demo bc nodeid of (r1, t1) \<Rightarrow>
        bind_outcome (numa_alloc_onnode_demo ac alloc (next_node (max_node bc) nodeid)) (\<lambda>(r2, t2).
          Running ((if r1 = 0 then 0 else 1) + (if r2 = 0 then 0 else 1), t1 @ t2)))"

section \<open>Lemmas\<close>

lemma check_status_replicate: "check_status (replicate n st) nodeid = (if 0 < n \<and> st \<noteq> nodeid then - 1 else 0)"
  by (induction n) auto

lemma queried_pages: "map (node_of c) (map (\<lambda>i. buf + page_size c) [0..<n]) = replicate n (node_of c (buf + page_size c))"
  by (simp add: map_replicate_const o_def)

lemma verify_cases:
  "fst (verify_page_numa c buf n nodeid) =
     (if \<not> (malloc_pages c \<and> malloc_status c) then ENOMEM
      else case move_pages_errno c of Some e \<Rightarrow> e
      | None \<Rightarrow> if 0 < n \<and> node_of c (buf + page_size c) \<noteq> nodeid then - 1 else 0)"
  "run_trace M (snd (verify_page_numa c buf n nodeid)) =
     Some (if malloc_pages c then add_mset Pages_array M else M)"
  unfolding verify_page_numa_def Let_def queried_pages check_status_replicate
  by (auto split: option.split)

lemma trace_of_pages: "map (\<lambda>i. Acquire (Buffer_page i)) [0..<PAGE_COUNT] = [Acquire (Buffer_page 0), Acquire (Buffer_page 1)]"
  by (simp add: PAGE_COUNT_def upt_rec)

lemma mbind_demo_cases:
  "fst (mbind_demo c nodeid) = (case mmap_result c of Inl e \<Rightarrow> e | Inr buf \<Rightarrow>
     if \<not> bitmask_ok c then ENOMEM
     else case mbind_errno c (node_mask c nodeid) (num_nodes c) of Some e \<Rightarrow> e
     | None \<Rightarrow> fst (verify_page_numa (numa_calls.truncate c) buf PAGE_COUNT (int nodeid)))"
  "run_trace M (snd (mbind_demo c nodeid)) = Some (case mmap_result c of Inl e \<Rightarrow> M | Inr buf \<Rightarrow>
     add_mset (Buffer_page 1) (if bitmask_ok c \<and> mbind_errno c (node_mask c nodeid) (num_nodes c) = None \<and>
       malloc_pages c then add_mset Pages_array M else M))"
proof -
  show "fst (mbind_demo c nodeid) = (case mmap_result c of Inl e \<Rightarrow> e | Inr buf \<Rightarrow>
     if \<not> bitmask_ok c then ENOMEM
     else case mbind_errno c (node_mask c nodeid) (num_nodes c) of Some e \<Rightarrow> e
     | None \<Rightarrow> fst (verify_page_numa (numa_calls.truncate c) buf PAGE_COUNT (int nodeid)))"
    by (simp add: mbind_demo_def Let_def split: sum.split option.split prod.split)
  have m: "malloc_pages (numa_calls.truncate c) = malloc_pages c" by (simp add: numa_calls.truncate_def)
  show "run_trace M (snd (mbind_demo c nodeid)) = Some (case mmap_result c of Inl e \<Rightarrow> M | Inr buf \<Rightarrow>
     add_mset (Buffer_page 1) (if bitmask_ok c \<and> mbind_errno c (node_mask c nodeid) (num_nodes c) = None \<and>
       malloc_pages c then add_mset Pages_array M else M))"
  proof (cases "mmap_result c")
    case (Inr buf)
    obtain r t where v: "verify_page_numa (numa_calls.truncate c) buf PAGE_COUNT (int nodeid) = (r, t)" by fastforce
    have "run_trace K t = Some (if malloc_pages c then add_mset Pages_array K else K)" for K
      using verify_cases(2) [of K "numa_calls.truncate c" buf PAGE_COUNT "int nodeid"] v m by simp
    then show ?thesis using Inr v
      by (cases "mbind_errno c (node_mask c nodeid) (num_nodes c)")
        (simp_all add: mbind_demo_def trace_of_pages run_trace_append Let_def)
  qed (simp add: mbind_demo_def)
qed

text \<open>What the check finds out when all its pages are asked for at the one address \<open>buf + page_size\<close>.\<close>

definition check_result :: "numa_calls \<Rightarrow> u64 \<Rightarrow> int \<Rightarrow> int" where
  "check_result c buf nodeid =
     (if \<not> malloc_pages c \<or> \<not> malloc_status c then ENOMEM
      else case move_pages_errno c of Some e \<Rightarrow> e
      | None \<Rightarrow> if node_of c (buf + page_size c) = nodeid then 0 else - 1)"

definition bind_result :: "bind_calls \<Rightarrow> nat \<Rightarrow> int" where
  "bind_result c nodeid = (let nodes = max 2 (max_node c + 1) in
     case mmap_result c of Inl e \<Rightarrow> e
     | Inr buf \<Rightarrow> if \<not> bitmask_ok c then ENOMEM
       else case mbind_errno c ((replicate nodes False)[nodeid := True]) nodes of Some e \<Rightarrow> e
       | None \<Rightarrow> check_result (numa_calls.truncate c) buf (int nodeid))"

definition bind_leaks :: "bind_calls \<Rightarrow> nat \<Rightarrow> numa_res multiset" where
  \<comment> \<open>one of the two pages, and the array of addresses if it was allocated\<close>
  "bind_leaks c nodeid = (let nodes = max 2 (max_node c + 1) in
     case mmap_result c of Inl e \<Rightarrow> {#}
     | Inr buf \<Rightarrow> add_mset (Buffer_page 1)
         (if bitmask_ok c \<and> mbind_errno c ((replicate nodes False)[nodeid := True]) nodes = None \<and> malloc_pages c
          then {#Pages_array#} else {#}))"

definition array_leak :: "numa_calls \<Rightarrow> numa_res multiset" where
  "array_leak c = (if malloc_pages c then {#Pages_array#} else {#})"

lemma verify_result:
  "fst (verify_page_numa c buf PAGE_COUNT nodeid) = check_result c buf nodeid"
  "leaks (snd (verify_page_numa c buf n nodeid)) (array_leak c)"
  using verify_cases(1) [of c buf PAGE_COUNT nodeid] verify_cases(2) [of "{#}" c buf n nodeid]
  by (auto simp: check_result_def PAGE_COUNT_def array_leak_def leaks_def split: option.split)

lemma num_nodes_max: "num_nodes c = max 2 (max_node c + 1)"
  by (auto simp: num_nodes_def)

lemma bind_specs:
  "bind_result c nodeid = (case mmap_result c of Inl e \<Rightarrow> e
     | Inr buf \<Rightarrow> if \<not> bitmask_ok c then ENOMEM
       else case mbind_errno c (node_mask c nodeid) (num_nodes c) of Some e \<Rightarrow> e
       | None \<Rightarrow> check_result (numa_calls.truncate c) buf (int nodeid))"
  "bind_leaks c nodeid = (case mmap_result c of Inl e \<Rightarrow> {#}
     | Inr buf \<Rightarrow> add_mset (Buffer_page 1)
         (if bitmask_ok c \<and> mbind_errno c (node_mask c nodeid) (num_nodes c) = None \<and> malloc_pages c
          then {#Pages_array#} else {#}))"
  by (simp_all only: bind_result_def bind_leaks_def node_mask_def num_nodes_max Let_def)

lemma mbind_demo_result:
  "fst (mbind_demo c nodeid) = bind_result c nodeid" "leaks (snd (mbind_demo c nodeid)) (bind_leaks c nodeid)"
  using mbind_demo_cases(1) [of c nodeid] mbind_demo_cases(2) [of "{#}" c nodeid]
  by (simp_all only: bind_specs verify_result leaks_def)

lemma alloc_demo_result:
  "\<exists>t. numa_alloc_onnode_demo c (Some buf) nodeid = Running (check_result c buf (int nodeid), t) \<and>
     Acquire Node_memory \<in> set t \<and> leaks t (array_leak c)"
proof -
  obtain r t where v: "verify_page_numa c buf PAGE_COUNT (int nodeid) = (r, t)" by fastforce
  have "r = check_result c buf (int nodeid)" using verify_result(1) [of c buf "int nodeid"] v by simp
  moreover have "leaks ([Acquire Node_memory] @ t @ [Release Node_memory]) (array_leak c)"
    using verify_cases(2) [of "{#Node_memory#}" c buf PAGE_COUNT "int nodeid"] v
    by (simp add: leaks_def run_trace_append array_leak_def)
  ultimately show ?thesis by (simp add: numa_alloc_onnode_demo_def v)
qed

lemma main_result:
  "\<exists>t. numa_main True bc c (Some buf) = Running
     (of_bool (bind_result bc (max_node bc) \<noteq> 0) + of_bool (check_result c buf (int (max_node bc - 1)) \<noteq> 0), t) \<and>
     leaks t (bind_leaks bc (max_node bc) + array_leak c)"
proof -
  have n: "next_node (max_node bc) (max_node bc) = max_node bc - 1" by (simp add: next_node_def)
  obtain r1 t1 where b: "mbind_demo bc (max_node bc) = (r1, t1)" by fastforce
  obtain t2 where a: "numa_alloc_onnode_demo c (Some buf) (max_node bc - 1) =
      Running (check_result c buf (int (max_node bc - 1)), t2)" "leaks t2 (array_leak c)"
    using alloc_demo_result [of c buf "max_node bc - 1"] by blast
  have r: "r1 = bind_result bc (max_node bc)" "leaks t1 (bind_leaks bc (max_node bc))"
    using mbind_demo_result [of bc "max_node bc"] b by simp_all
  have "numa_main True bc c (Some buf) = Running
     (of_bool (bind_result bc (max_node bc) \<noteq> 0) + of_bool (check_result c buf (int (max_node bc - 1)) \<noteq> 0), t1 @ t2)"
    by (simp only: numa_main_def Let_def n b a(1) r(1)) simp
  then show ?thesis using leaks_append [OF r(2) a(2)] by blast
qed

section \<open>Properties\<close>

text \<open>
  C36: results and leaks of every function of the demo, for all answers of the system. \<open>verify_page_numa\<close>, when its calls
  succeed, returns 0 exactly if the page at \<open>buf + page_size\<close> is on the node asked for (its array holds that one
  address twice, so the node of the first page makes no difference), and never frees that array.
  \<open>mbind_demo\<close> binds to a mask with just the bit of the node among at least two nodes, returns the first failure or the
  result of the check, and unmaps only the first of the two pages it has mapped. \<open>numa_alloc_onnode_demo\<close>
  writes through NULL when nothing could be allocated, else returns the result of the check and frees what it
  allocated. The program crashes with it, or returns the number of demos that failed, on the last node and
  the one before it, and leaks what they leak; without libnuma it returns -1 and does nothing.
\<close>
theorem numa_demo_result:
  "fst (verify_page_numa c buf PAGE_COUNT nodeid) = check_result c buf nodeid \<and>
   leaks (snd (verify_page_numa c buf PAGE_COUNT nodeid)) (array_leak c) \<and>
   fst (mbind_demo bc node) = bind_result bc node \<and> leaks (snd (mbind_demo bc node)) (bind_leaks bc node) \<and>
   numa_alloc_onnode_demo c None node = Crashed \<and>
   (\<exists>t. numa_alloc_onnode_demo c (Some buf) node = Running (check_result c buf (int node), t) \<and>
      Acquire Node_memory \<in> set t \<and> leaks t (array_leak c)) \<and>
   numa_main False bc c alloc = Running (- 1, []) \<and> numa_main True bc c None = Crashed \<and>
   (\<exists>t. numa_main True bc c (Some buf) = Running
     (of_bool (bind_result bc (max_node bc) \<noteq> 0) + of_bool (check_result c buf (int (max_node bc - 1)) \<noteq> 0), t) \<and>
     leaks t (bind_leaks bc (max_node bc) + array_leak c))"
proof (intro conjI verify_result mbind_demo_result alloc_demo_result main_result)
  show "numa_alloc_onnode_demo c None node = Crashed" "numa_main False bc c alloc = Running (- 1, [])"
    by (simp_all add: numa_alloc_onnode_demo_def numa_main_def)
  show "numa_main True bc c None = Crashed"
    by (simp add: numa_main_def numa_alloc_onnode_demo_def Let_def split: prod.split)
qed

section \<open>Witnesses\<close>

text \<open>The first page is on node 7, the second on node 0, and both are said to be on node 0.\<close>

definition demo_numa :: numa_calls where
  "demo_numa = \<lparr>page_size = 0x1000, malloc_pages = True, malloc_status = True, move_pages_errno = None,
     node_of = (\<lambda>a. if a = 0x4000 then 7 else 0)\<rparr>"

definition demo_bind :: bind_calls where
  "demo_bind = numa_calls.extend demo_numa
     \<lparr>max_node = 0, mmap_result = Inr 0x4000, bitmask_ok = True, mbind_errno = (\<lambda>m n. None)\<rparr>"

theorem numa_demo_result_witness:
  "fst (verify_page_numa demo_numa 0x4000 PAGE_COUNT 0) = 0 \<and> node_of demo_numa 0x4000 = 7 \<and>
   leaks (snd (mbind_demo demo_bind 0)) {#Buffer_page 1, Pages_array#} \<and>
   (\<exists>t. numa_main True demo_bind demo_numa (Some 0x3000) = Running (1, t))"
proof -
  have r: "check_result demo_numa 0x4000 0 = 0" "check_result demo_numa 0x3000 0 = - 1" "node_of demo_numa 0x4000 = 7"
    by (simp_all add: check_result_def demo_numa_def)
  have b: "bind_leaks demo_bind 0 = {#Buffer_page 1, Pages_array#}" "max_node demo_bind = 0" "bind_result demo_bind 0 = 0"
    by (simp_all add: bind_leaks_def bind_result_def check_result_def demo_bind_def demo_numa_def
        numa_calls.extend_def numa_calls.truncate_def)
  show ?thesis
    using numa_demo_result [of demo_numa "0x4000" 0 demo_bind 0 None] numa_demo_result [of demo_numa "0x3000" 0 demo_bind 0 None] r b
    by auto
qed

end
