(* ===== verification/StdioDemo.thy ===== *)
theory StdioDemo
  imports Machine
begin

text \<open>
  Two programs about reading and building text: \<open>c/stdio-demo.c\<close> appends strings with \<open>sprintf\<close> and splits an
  in-memory file with \<open>getline\<close>; \<open>linux-c/shell-cmd-in-c.c\<close> copies the output of a shell command with \<open>fgets\<close>.
  What a stream holds is an argument, and so is every failure of opening one. A write past a buffer or
  a read before it is \<open>Crashed\<close>.
\<close>

section \<open>sprintf\<close>

definition sprintf_strings :: "string list" where
  "sprintf_strings = [''word'', ''|two words with newline'' @ [CHR 0x0A], [], ''|last words'']"

definition sprintf_at :: "nat \<Rightarrow> string \<Rightarrow> string \<Rightarrow> string option" where
  \<comment> \<open>\<open>sprintf (buffer + cursor, "%s", s)\<close>: the characters and a NUL\<close>
  "sprintf_at cursor s buffer =
     (if cursor + length s < length buffer
      then Some (take cursor buffer @ s @ CHR 0x00 # drop (cursor + length s + 1) buffer) else None)"

fun sprintf_loop :: "(nat \<Rightarrow> int option) \<Rightarrow> nat \<Rightarrow> string list \<Rightarrow> nat \<Rightarrow> string \<Rightarrow> (int \<times> nat list \<times> string) outcome" where
  \<comment> \<open>\<open>fails i\<close> is the negative result of a \<open>sprintf\<close> that fails in round \<open>i\<close>; the result has the value returned,
     the lengths printed and the buffer\<close>
  "sprintf_loop fails i [] cursor buffer = Running (0, [], buffer)"
| "sprintf_loop fails i (s # ss) cursor buffer = (case fails i of
     Some r \<Rightarrow> Running (r, [], buffer)
   | None \<Rightarrow> (case sprintf_at cursor s buffer of
       None \<Rightarrow> Crashed
     | Some buffer' \<Rightarrow> bind_outcome (sprintf_loop fails (i + 1) ss (cursor + length s) buffer')
         (\<lambda>(r, ns, b). Running (r, length s # ns, b))))"

definition sprintf_demo :: "(nat \<Rightarrow> int option) \<Rightarrow> (int \<times> nat list \<times> string) outcome" where
  "sprintf_demo fails = sprintf_loop fails 0 sprintf_strings 0 (replicate 64 CHR 0x00)"

section \<open>getline\<close>

definition getline_text :: string where
  \<comment> \<open>the array \<open>buffer\<close> without the NUL at its end\<close>
  "getline_text = ''This is the first line.'' @ [CHR 0x0A] @ ''This is the second line.'' @ [CHR 0x0D, CHR 0x0A] @
     ''This is the '' @ concat (replicate 20 ''much '') @ ''longer third line.'' @ [CHR 0x0A] @
     [CHR 0x0A, CHR 0x0A]"

fun next_line :: "string \<Rightarrow> string \<times> string" where
  \<comment> \<open>one \<open>getline\<close>: up to and including the newline, or to the end; and what is left\<close>
  "next_line [] = ([], [])"
| "next_line (c # cs) = (if c = CHR 0x0A then ([c], cs) else case next_line cs of (l, r) \<Rightarrow> (c # l, r))"

record line_info =
  num_char :: nat
  line_len :: nat        \<comment> \<open>\<open>strlen (line)\<close>\<close>
  first_char :: char
  last_char :: char      \<comment> \<open>\<open>line[line_len - 1]\<close>\<close>
  line_text :: string

lemma next_line_append: "next_line s = (l, r) \<Longrightarrow> l @ r = s"
  by (induction s arbitrary: l r rule: next_line.induct) (auto split: if_splits prod.splits)

lemma next_line_nonempty: "next_line (c # cs) = (l, r) \<Longrightarrow> l \<noteq> []"
  by (auto split: if_splits prod.splits)

lemma next_line_shorter: "(l, r) = next_line (c # cs) \<Longrightarrow> length r < Suc (length cs)"
proof -
  assume "(l, r) = next_line (c # cs)"
  then have n: "next_line (c # cs) = (l, r)" by simp
  have "length l + length r = length (c # cs)" using next_line_append [OF n] by (metis length_append)
  then show ?thesis using next_line_nonempty [OF n] by (cases l) auto
qed

function getline_loop :: "string \<Rightarrow> line_info list outcome" where
  "getline_loop [] = Running []"
| "getline_loop (c # cs) = (case next_line (c # cs) of (line, rest) \<Rightarrow>
     let n = length (c_str line) in
     if n = 0 then Crashed
     else bind_outcome (getline_loop rest) (\<lambda>infos. Running (\<lparr>num_char = length line, line_len = n,
       first_char = hd line, last_char = line ! (n - 1), line_text = c_str line\<rparr> # infos)))"
  by pat_completeness auto
termination by (relation "measure length") (auto simp del: next_line.simps dest: next_line_shorter)

definition getline_demo :: "int + string \<Rightarrow> (int \<times> line_info list) outcome" where
  \<comment> \<open>the result of \<open>fmemopen\<close>: \<open>errno\<close>, or what the stream holds\<close>
  "getline_demo fp = (case fp of Inl e \<Rightarrow> Running (e, [])
     | Inr content \<Rightarrow> bind_outcome (getline_loop content) (\<lambda>infos. Running (0, infos)))"

definition stdio_main :: "int + string \<Rightarrow> (nat \<Rightarrow> int option) \<Rightarrow> (int \<times> line_info list \<times> string) outcome" where
  "stdio_main fp fails = bind_outcome (getline_demo fp) (\<lambda>(r1, infos).
     bind_outcome (sprintf_demo fails) (\<lambda>(r2, _, buffer). Running (Bit_Operations.or r1 r2, infos, buffer)))"

section \<open>Shell commands\<close>

datatype shell_res = Pipe

definition LINE_SIZE :: nat where "LINE_SIZE = 256"

definition quoted :: "string \<Rightarrow> string" where "quoted s = [CHR 0x27] @ s @ [CHR 0x27]"

definition run_cmd_system :: "string \<Rightarrow> int \<Rightarrow> string" where
  \<comment> \<open>what \<open>system\<close> returns; the command's own output does not pass through the program\<close>
  "run_cmd_system cmd ret = ''run_cmd_system: '' @ quoted cmd @ '' executed, ret='' @ dec_of_int ret @ ''.'' @ [CHR 0x0A]"

definition run_cmd_popen :: "string \<Rightarrow> string + string \<Rightarrow> string \<times> shell_res rev list" where
  \<comment> \<open>the message of a failed \<open>popen\<close>, or what the command writes; \<open>printf ("%s", line)\<close> stops at a NUL\<close>
  "run_cmd_popen cmd out = (case out of
     Inl errmsg \<Rightarrow> (''run_cmd_popen: failed to run '' @ quoted cmd @ '', errmsg='' @ quoted errmsg @ ''.'' @ [CHR 0x0A], [])
   | Inr output \<Rightarrow> (''run_cmd_popen: '' @ quoted cmd @ '' executed.'' @ [CHR 0x0A] @
       concat (map c_str (fgets_lines LINE_SIZE output)), [Acquire Pipe, Release Pipe]))"

definition shell_main :: "(string \<Rightarrow> int) \<Rightarrow> (string \<Rightarrow> string + string) \<Rightarrow> int \<times> string \<times> shell_res rev list" where
  "shell_main system popen =
     (case (run_cmd_popen ''pwd'' (popen ''pwd''),
            run_cmd_popen ''ls -l /non-existent-path'' (popen ''ls -l /non-existent-path'')) of
        ((out1, t1), (out2, t2)) \<Rightarrow>
          (0, run_cmd_system ''ps -l'' (system ''ps -l'') @ run_cmd_system ''! ps -l'' (system ''! ps -l'') @ out1 @ out2, t1 @ t2))"

section \<open>Lemmas\<close>

definition rounds_done :: "(nat \<Rightarrow> int option) \<Rightarrow> nat \<Rightarrow> nat \<Rightarrow> nat" where
  \<comment> \<open>how many of the \<open>n\<close> rounds from \<open>i\<close> on come before the first that fails\<close>
  "rounds_done fails i n = length (takeWhile (\<lambda>j. fails j = None) [i..<i + n])"

lemma rounds_done_simps [simp]:
  "rounds_done fails i 0 = 0"
  "rounds_done fails i (Suc n) = (if fails i = None then Suc (rounds_done fails (Suc i) n) else 0)"
  by (simp_all add: rounds_done_def upt_conv_Cons del: upt_Suc)

lemma sprintf_loop_result:
  assumes "cursor + length (concat ss) < length buffer" "buffer ! cursor = CHR 0x00"
  shows "\<exists>b. sprintf_loop fails i ss cursor buffer =
      Running (case fails (i + rounds_done fails i (length ss)) of
          Some r \<Rightarrow> if rounds_done fails i (length ss) < length ss then r else 0 | None \<Rightarrow> 0,
        map length (take (rounds_done fails i (length ss)) ss), b) \<and> length b = length buffer \<and>
      (let k = rounds_done fails i (length ss) in
       take (cursor + length (concat (take k ss)) + 1) b = take cursor buffer @ concat (take k ss) @ [CHR 0x00])"
  using assms
proof (induction ss arbitrary: i cursor buffer)
  case Nil
  then have "take (Suc cursor) buffer = take cursor buffer @ [CHR 0x00]" by (simp add: take_Suc_conv_app_nth)
  then show ?case by (simp split: option.split)
next
  case (Cons s ss)
  show ?case
  proof (cases "fails i")
    case (Some r)
    have "take (Suc cursor) buffer = take cursor buffer @ [CHR 0x00]"
      using Cons.prems by (simp add: take_Suc_conv_app_nth)
    then show ?thesis by (simp add: Some)
  next
    case None
    let ?b = "take cursor buffer @ s @ CHR 0x00 # drop (cursor + length s + 1) buffer"
    let ?k = "rounds_done fails (Suc i) (length ss)"
    have at: "sprintf_at cursor s buffer = Some ?b" "length ?b = length buffer"
      using Cons.prems by (simp_all add: sprintf_at_def)
    have t: "take (cursor + length s) ?b = take cursor buffer @ s" "?b ! (cursor + length s) = CHR 0x00"
      using Cons.prems by (simp_all add: nth_append)
    have "cursor + length s + length (concat ss) < length ?b" using Cons.prems(1) at(2) by simp
    from Cons.IH [OF this t(2), of "Suc i"] obtain b where
      b: "sprintf_loop fails (Suc i) ss (cursor + length s) ?b =
          Running (case fails (Suc i + ?k) of Some r \<Rightarrow> if ?k < length ss then r else 0 | None \<Rightarrow> 0, map length (take ?k ss), b)"
        "length b = length ?b"
        "take (cursor + length s + length (concat (take ?k ss)) + 1) b =
          take (cursor + length s) ?b @ concat (take ?k ss) @ [CHR 0x00]"
      unfolding Let_def by blast
    have "take (cursor + length (concat (take (Suc ?k) (s # ss))) + 1) b =
        take cursor buffer @ concat (take (Suc ?k) (s # ss)) @ [CHR 0x00]"
      using b(3) unfolding t(1) by (simp add: add.assoc)
    moreover have k: "rounds_done fails i (length (s # ss)) = Suc ?k" by (simp add: None)
    moreover have "length b = length buffer" using b(2) at(2) by simp
    ultimately show ?thesis
      unfolding Let_def k using at(1) b(1) by (intro exI [of _ b]) (simp add: None split: option.split)
  qed
qed

text \<open>The lines of a text: each ends with its newline, but the last one need not.\<close>

fun split_lines :: "string \<Rightarrow> string list" where
  "split_lines [] = []"
| "split_lines (c # cs) = (if c = CHR 0x0A then [c] # split_lines cs
     else case split_lines cs of [] \<Rightarrow> [[c]] | l # ls \<Rightarrow> (c # l) # ls)"

lemma split_next: "next_line (c # cs) = (l, r) \<Longrightarrow> split_lines (c # cs) = l # split_lines r"
proof (induction cs arbitrary: c l r)
  case (Cons d ds)
  show ?case
  proof (cases "c = CHR 0x0A")
    case False
    then obtain k where k: "next_line (d # ds) = (k, r)" "l = c # k" using Cons.prems by (auto split: prod.splits)
    from Cons.IH [OF k(1)] show ?thesis using False k(2) by (simp del: next_line.simps split_lines.simps(2) add: split_lines.simps(2) [of c])
  qed (use Cons.prems in auto)
qed (auto split: if_splits)

lemma split_lines_shape:
  "concat (split_lines s) = s \<and> (\<forall>l \<in> set (split_lines s). l \<noteq> [] \<and> CHR 0x0A \<notin> set (butlast l)) \<and>
   (\<forall>l \<in> set (butlast (split_lines s)). last l = CHR 0x0A)"
proof (induction s)
  case (Cons c cs)
  then show ?case by (cases "split_lines cs") auto
qed simp

definition info_of :: "string \<Rightarrow> line_info" where
  \<comment> \<open>what is printed of a line; \<open>strlen\<close> stops at its first NUL\<close>
  "info_of l = \<lparr>num_char = length l, line_len = length (c_str l), first_char = hd l,
     last_char = l ! (length (c_str l) - 1), line_text = c_str l\<rparr>"

lemma getline_loop_eq:
  "getline_loop s = (if \<exists>l \<in> set (split_lines s). hd l = CHR 0x00 then Crashed else Running (map info_of (split_lines s)))"
proof (induction s rule: getline_loop.induct)
  case (2 c cs)
  obtain line rest where n: "next_line (c # cs) = (line, rest)" by fastforce
  have ne: "line \<noteq> []" by (rule next_line_nonempty [OF n])
  have zero: "length (c_str line) = 0 \<longleftrightarrow> hd line = CHR 0x00" using ne by (cases line) (simp_all add: c_str_def)
  show ?case
  proof (cases "hd line = CHR 0x00")
    case True
    then show ?thesis using n zero split_next [OF n] by (simp del: next_line.simps split_lines.simps)
  next
    case False
    with "2.IH" [OF n [symmetric] refl] zero have "getline_loop rest =
      (if \<exists>l \<in> set (split_lines rest). hd l = CHR 0x00 then Crashed else Running (map info_of (split_lines rest)))" by blast
    then show ?thesis
      using n zero False split_next [OF n] by (simp add: info_of_def Let_def del: next_line.simps split_lines.simps)
  qed
qed simp

lemma fgets_lines_no_nul: "CHR 0x00 \<notin> set s \<Longrightarrow> 1 < sz \<Longrightarrow> concat (map c_str (fgets_lines sz s)) = s"
proof -
  assume s: "CHR 0x00 \<notin> set s" "1 < sz"
  have "CHR 0x00 \<notin> set l" if "l \<in> set (fgets_lines sz s)" for l
    using fgets_lines_concat [OF s(2), of s] that s(1) by (metis UN_I set_concat)
  then have "map c_str (fgets_lines sz s) = fgets_lines sz s"
    by (auto intro!: map_idI simp: c_str_def takeWhile_eq_all_conv)
  then show ?thesis using fgets_lines_concat [OF s(2)] by simp
qed

interpretation popen_call: clean_call "\<lambda>(cmd, out). snd (run_cmd_popen cmd out)"
  by unfold_locales (auto simp: run_cmd_popen_def trace_eval split: sum.split)

section \<open>Properties\<close>

text \<open>
  C35: what the text program does, whatever the stream holds and whichever \<open>sprintf\<close> fails. \<open>getline\<close> splits the stream
  into its lines: their concatenation is the stream, a newline is only at the end of a line and at the
  end of every line but the last. If some line starts with a NUL, the demo reads the byte before the line
  buffer. Otherwise it reports each line by its length and its \<open>strlen\<close>, which are equal exactly for
  lines without NUL; the second demo leaves the concatenation of the strings before the first failure,
  NUL-terminated, in its buffer, and the program returns the two demos' results joined by \<open>|\<close>.
\<close>
theorem stdio_demo_result:
  "(let ls = (case fp of Inl e \<Rightarrow> [] | Inr content \<Rightarrow> split_lines content);
        k = rounds_done fails 0 4;
        r1 = (case fp of Inl e \<Rightarrow> e | Inr content \<Rightarrow> 0);
        r2 = (if k < 4 then the (fails k) else 0) in
    (if \<exists>l \<in> set ls. hd l = CHR 0x00 then stdio_main fp fails = Crashed
     else \<exists>buffer. stdio_main fp fails = Running (Bit_Operations.or r1 r2, map info_of ls, buffer) \<and>
       c_str buffer = concat (take k sprintf_strings)) \<and>
    (\<forall>content. fp = Inr content \<longrightarrow> concat ls = content) \<and>
    (\<forall>l \<in> set ls. l \<noteq> [] \<and> CHR 0x0A \<notin> set (butlast l) \<and>
       (num_char (info_of l) = line_len (info_of l) \<longleftrightarrow> CHR 0x00 \<notin> set l)) \<and>
    (\<forall>l \<in> set (butlast ls). last l = CHR 0x0A))"
proof -
  define k where "k = rounds_done fails 0 4"
  have four: "length sprintf_strings = 4" by (simp add: sprintf_strings_def)
  have le: "k \<le> 4"
    using length_takeWhile_le [of "\<lambda>j. fails j = None" "[0..<4]"] by (simp add: k_def rounds_done_def)
  have fail: "fails k \<noteq> None" if "k < 4"
  proof -
    have "\<not> fails ([0..<4] ! k) = None"
      using nth_length_takeWhile [of "\<lambda>j. fails j = None" "[0..<4]"] that by (simp add: k_def rounds_done_def)
    then show ?thesis using that by simp
  qed
  have ret: "(case fails (0 + k) of Some r \<Rightarrow> if k < 4 then r else 0 | None \<Rightarrow> 0) = (if k < 4 then the (fails k) else 0)"
    using fail by (cases "fails k") auto
  obtain b where b: "sprintf_demo fails = Running (if k < 4 then the (fails k) else 0, map length (take k sprintf_strings), b)"
    "take (length (concat (take k sprintf_strings)) + 1) b = concat (take k sprintf_strings) @ [CHR 0x00]"
  proof -
    have "0 + length (concat sprintf_strings) < length (replicate 64 CHR 0x00)" "replicate 64 CHR 0x00 ! 0 = CHR 0x00"
      by (simp_all add: sprintf_strings_def)
    from sprintf_loop_result [OF this, of fails 0] ret show thesis
      unfolding four k_def [symmetric] Let_def by (auto simp: sprintf_demo_def intro: that)
  qed
  have nul: "CHR 0x00 \<notin> set (concat (take k sprintf_strings))"
  proof -
    have "CHR 0x00 \<notin> set (concat sprintf_strings)" by code_simp
    moreover have "set (concat (take k sprintf_strings)) \<subseteq> set (concat sprintf_strings)" by (auto dest: in_set_takeD)
    ultimately show ?thesis by blast
  qed
  have "b = concat (take k sprintf_strings) @ CHR 0x00 # drop (length (concat (take k sprintf_strings)) + 1) b"
    using append_take_drop_id [of "length (concat (take k sprintf_strings)) + 1" b] unfolding b(2) by simp
  then have str: "c_str b = concat (take k sprintf_strings)" using c_str_no_nul [OF nul] by metis
  have nums: "num_char (info_of l) = line_len (info_of l) \<longleftrightarrow> CHR 0x00 \<notin> set l" for l
  proof -
    have all: "length (takeWhile P l) = length l \<longleftrightarrow> (\<forall>x \<in> set l. P x)" for P
      by (induction l) simp_all
    have "num_char (info_of l) = line_len (info_of l) \<longleftrightarrow> length (takeWhile (\<lambda>c. c \<noteq> CHR 0x00) l) = length l"
      unfolding info_of_def line_info.select_convs c_str_def by (rule eq_commute)
    then show ?thesis unfolding all by auto
  qed
  show ?thesis
  proof (cases fp)
    case (Inl e)
    then show ?thesis using b(1) str by (simp add: stdio_main_def getline_demo_def Let_def flip: k_def)
  next
    case (Inr content)
    then show ?thesis
      using b(1) str split_lines_shape [of content] nums
      by (simp add: stdio_main_def getline_demo_def getline_loop_eq Let_def flip: k_def)
  qed
qed

text \<open>
  the output of a shell command is printed completely. Whatever the lengths of its lines, cutting the output
  into pieces of at most 255 characters and printing them gives the output itself, as long as it has no
  NUL; a \<open>popen\<close> that fails prints its error instead; main returns 0 and closes every pipe whatever the
  commands do.
\<close>
theorem popen_prints_output:
  assumes "CHR 0x00 \<notin> set output"
  shows "fst (run_cmd_popen cmd (Inr output)) = ''run_cmd_popen: '' @ quoted cmd @ '' executed.'' @ [CHR 0x0A] @ output \<and>
    snd (run_cmd_popen cmd (Inl errmsg)) = [] \<and>
    fst (shell_main sys popen) = 0 \<and> balanced (snd (snd (shell_main sys popen)))"
proof -
  have "fst (shell_main sys popen) = 0 \<and> balanced (snd (snd (shell_main sys popen)))"
    using popen_call.two_calls_balanced [of "(''pwd'', popen ''pwd'')"
        "(''ls -l /non-existent-path'', popen ''ls -l /non-existent-path'')"]
    by (simp add: shell_main_def split_beta)
  then show ?thesis using fgets_lines_no_nul [OF assms] by (simp add: run_cmd_popen_def LINE_SIZE_def)
qed

section \<open>Witnesses\<close>

theorem stdio_demo_result_witness:
  "(\<exists>buffer. stdio_main (Inr getline_text) (\<lambda>_. None) = Running (0, map info_of (split_lines getline_text), buffer) \<and>
      c_str buffer = concat sprintf_strings) \<and>
   stdio_main (Inr (getline_text @ [CHR 0x00])) (\<lambda>_. None) = Crashed"
proof -
  have lines: "\<not> (\<exists>l \<in> set (split_lines getline_text). hd l = CHR 0x00)"
    "\<exists>l \<in> set (split_lines (getline_text @ [CHR 0x00])). hd l = CHR 0x00"
    by code_simp+
  have four: "rounds_done (\<lambda>_. None) 0 4 = 4" "take 4 sprintf_strings = sprintf_strings"
    by (simp_all add: eval_nat_numeral sprintf_strings_def)
  show ?thesis
    using stdio_demo_result [of "Inr getline_text" "\<lambda>_. None"]
      stdio_demo_result [of "Inr (getline_text @ [CHR 0x00])" "\<lambda>_. None"] lines four
    unfolding Let_def sum.case by simp
qed

theorem popen_prints_output_witness:
  "fst (run_cmd_popen ''x'' (Inr (replicate 300 CHR ''x''))) =
    ''run_cmd_popen: '' @ quoted ''x'' @ '' executed.'' @ [CHR 0x0A] @ replicate 300 CHR ''x''"
  using popen_prints_output [of "replicate 300 CHR ''x''"] by (simp only: set_replicate_conv_if) simp

end
