(* ===== verification/Digest.thy ===== *)
theory Digest
  imports Machine
begin

text \<open>
  The message digest demo \<open>linux-c/openssl/digest.c\<close>. The digest context of the openssl library is an argument
  (\<open>evp_ops\<close>) with the documented contract of its four calls; what the shell's \<open>md5sum\<close> and \<open>sha256sum\<close> print is
  an argument too. Modelled are the sequence of calls and their error exits, the messages that are
  hashed, the printing of a digest in hexadecimal and its reading back from the shell's output.
\<close>

section \<open>Printing a digest and reading it back\<close>

definition hex2 :: "u8 \<Rightarrow> string" where
  \<comment> \<open>\<open>%02x\<close>\<close>
  "hex2 b = [hex_char (unat b div 16), hex_char (unat b mod 16)]"

definition print_digest :: "string \<Rightarrow> u8 list \<Rightarrow> string" where
  "print_digest head digest = head @ '': '' @ concat (map hex2 digest) @ [CHR 0x0A]"

definition scan_2x :: "string \<Rightarrow> (nat \<times> string) option" where
  \<comment> \<open>\<open>fscanf (fp, "%2x", &value)\<close>: white space, then at most two characters, of which a sign and a prefix
     count; the value modulo \<open>2 ^ 32\<close>\<close>
  "scan_2x s = (let u = ltrim s; w = take 2 u in
     if w = ''0x'' \<or> w = ''0X'' then None
     else case scan_sign w of (neg, v) \<Rightarrow>
       let ds = takeWhile is_hex v in
       if ds = [] then None
       else Some (if neg then (2 ^ 32 - hex_val ds) mod 2 ^ 32 else hex_val ds,
         drop (length w - length v + length ds) u))"

fun read_bytes :: "nat \<Rightarrow> string \<Rightarrow> u8 list option" where
  \<comment> \<open>the loop of \<open>str_to_digest\<close>; \<open>None\<close>: \<open>exit (-1)\<close>\<close>
  "read_bytes 0 s = Some []"
| "read_bytes (Suc n) s = (case scan_2x s of None \<Rightarrow> None
     | Some (v, r) \<Rightarrow> (case read_bytes n r of None \<Rightarrow> None | Some bs \<Rightarrow> Some (word_of_nat v # bs)))"

definition digest_command :: "string \<Rightarrow> string \<Rightarrow> string" where
  \<comment> \<open>\<open>sprintf (cmd, "echo -n \\"%s\\" | %ssum", str, type)\<close>\<close>
  "digest_command str type = ''echo -n '' @ [CHR 0x22] @ str @ [CHR 0x22] @ '' | '' @ type @ ''sum''"

datatype digest_res = Shell_pipe | Buffer | Context

definition str_to_digest :: "(string \<Rightarrow> string option) \<Rightarrow> string \<Rightarrow> string \<Rightarrow> u8 list \<Rightarrow> (u8 list \<times> digest_res rev list) outcome" where
  \<comment> \<open>\<open>popen\<close> (\<open>None\<close> when it fails; its error message is not part of the result), the string, the type and
     what \<open>md\<close> holds\<close>
  "str_to_digest popen str type md =
     (let cmd = digest_command str type in
      if 64 \<le> length cmd then Crashed
      else case popen cmd of
        None \<Rightarrow> Running (md, [])
      | Some output \<Rightarrow> (case read_bytes (length md) output of
          None \<Rightarrow> Exited (- 1)
        | Some bs \<Rightarrow> Running (bs, [Acquire Shell_pipe])))"

section \<open>The digest context\<close>

record 'c evp_ops =
  digest_init :: "'c \<Rightarrow> 'c option"                    \<comment> \<open>\<open>EVP_DigestInit_ex (ctx, EVP_md5 (), NULL)\<close>\<close>
  digest_update :: "'c \<Rightarrow> u8 list \<Rightarrow> 'c option"
  digest_final :: "'c \<Rightarrow> ('c \<times> u8 list) option"
  ctx_reset :: "'c \<Rightarrow> 'c option"

definition MD5_DIGEST_LENGTH :: nat where "MD5_DIGEST_LENGTH = 16"
definition SHA256_DIGEST_LENGTH :: nat where "SHA256_DIGEST_LENGTH = 32"
definition BUFFER_LENGTH :: nat where "BUFFER_LENGTH = 4096"
definition STR_TO_HASH :: string where "STR_TO_HASH = ''a string''"

definition calc_md5 :: "'c evp_ops \<Rightarrow> 'c \<Rightarrow> u8 list \<Rightarrow> ('c \<times> u8 list) outcome" where
  "calc_md5 ops ctx buf = (case digest_init ops ctx of None \<Rightarrow> Exited (- 1)
     | Some ctx1 \<Rightarrow> (case digest_update ops ctx1 buf of None \<Rightarrow> Exited (- 1)
     | Some ctx2 \<Rightarrow> (case digest_final ops ctx2 of None \<Rightarrow> Exited (- 1)
     | Some (ctx3, md) \<Rightarrow> (case ctx_reset ops ctx3 of None \<Rightarrow> Exited (- 1)
     | Some ctx4 \<Rightarrow> if length md \<noteq> MD5_DIGEST_LENGTH then Exited (- 1) else Running (ctx4, md)))))"

section \<open>The demos\<close>

definition demo_messages :: "(string \<times> u8 list) list" where
  \<comment> \<open>the headings and the bytes that are hashed, from the buffer of zeros after each change\<close>
  "demo_messages = (let zero = replicate BUFFER_LENGTH 0 in
     [(''all-zero'', zero), (''lsbyte-1'', zero[0 := 1]), (''msbyte-1'', zero[0 := 1, 0 := 0, BUFFER_LENGTH - 1 := 1]),
      (''all-zero'', zero[0 := 1, 0 := 0, BUFFER_LENGTH - 1 := 1, BUFFER_LENGTH - 1 := 0]),
      (''half-len'', take (BUFFER_LENGTH div 2) (zero[0 := 1, 0 := 0, BUFFER_LENGTH - 1 := 1, BUFFER_LENGTH - 1 := 0])),
      (CHR 0x27 # STR_TO_HASH @ [CHR 0x27] @ ''   lib'', map char_byte STR_TO_HASH)])"

fun md5_all :: "'c evp_ops \<Rightarrow> 'c \<Rightarrow> (string \<times> u8 list) list \<Rightarrow> u8 list \<Rightarrow> (u8 list \<times> string) outcome" where
  \<comment> \<open>hash and print one message after the other with the same context; the last digest and the output\<close>
  "md5_all ops ctx [] md = Running (md, [])"
| "md5_all ops ctx ((head, msg) # rest) md = bind_outcome (calc_md5 ops ctx msg) (\<lambda>(ctx', md').
     bind_outcome (md5_all ops ctx' rest md') (\<lambda>(last, out). Running (last, print_digest head md' @ out)))"

definition shell_head :: string where "shell_head = CHR 0x27 # STR_TO_HASH @ [CHR 0x27] @ '' shell''"

definition md5sum_demo :: "'c evp_ops \<Rightarrow> bool \<Rightarrow> 'c option \<Rightarrow> u8 list \<Rightarrow> u8 list \<Rightarrow> (string \<Rightarrow> string option) \<Rightarrow>
    (string \<times> digest_res rev list) outcome" where
  \<comment> \<open>whether \<open>mmap\<close> works, the new context, what \<open>md\<close> and \<open>ref_md\<close> hold at first, and the shell\<close>
  "md5sum_demo ops mmap_ok new_ctx md ref_md popen =
     (if \<not> mmap_ok then Exited (- 1)
      else case new_ctx of None \<Rightarrow> Exited (- 1)
      | Some ctx \<Rightarrow> bind_outcome (md5_all ops ctx demo_messages md) (\<lambda>(md', out).
          bind_outcome (str_to_digest popen STR_TO_HASH ''md5'' ref_md) (\<lambda>(ref, t).
            if md' \<noteq> ref then Exited (- 1)
            else Running (out @ print_digest shell_head ref,
              [Acquire Buffer, Acquire Context] @ t @ [Release Context, Release Buffer]))))"

definition sha256_demo :: "(u8 list \<Rightarrow> u8 list) \<Rightarrow> bool \<Rightarrow> u8 list \<Rightarrow> (string \<Rightarrow> string option) \<Rightarrow>
    (string \<times> digest_res rev list) outcome" where
  "sha256_demo sha256 mmap_ok ref_md popen =
     (if \<not> mmap_ok then Exited (- 1)
      else bind_outcome (str_to_digest popen STR_TO_HASH ''sha256'' ref_md) (\<lambda>(ref, t).
        if sha256 (map char_byte STR_TO_HASH) \<noteq> ref then Exited (- 1)
        else Running (concat (map (\<lambda>(head, msg). print_digest head (sha256 msg)) demo_messages) @
            print_digest shell_head ref, [Acquire Buffer] @ t @ [Release Buffer])))"

definition utils_demo :: "nat \<Rightarrow> nat \<Rightarrow> nat \<Rightarrow> string outcome" where
  \<comment> \<open>\<open>EVP_MD_size\<close> of the two algorithms and \<open>EVP_MAX_MD_SIZE\<close>\<close>
  "utils_demo md5_size sha256_size max_size =
     (if sha256_size \<noteq> SHA256_DIGEST_LENGTH \<or> md5_size \<noteq> MD5_DIGEST_LENGTH then Exited (- 1)
      else Running (''message digest size: md5='' @ dec_of md5_size @ '', sha256='' @ dec_of sha256_size @ '', max='' @
        dec_of max_size @ [CHR 0x0A] @ ''EVP digest length = predefined macros.'' @ [CHR 0x0A]))"

definition digest_heading :: "string \<Rightarrow> string" where
  \<comment> \<open>the headings are filled with stars to 59 columns\<close>
  "digest_heading h = ''* '' @ h @ [CHR '' ''] @ replicate (56 - length h) CHR ''*'' @ [CHR 0x0A]"

definition digest_main :: "string outcome \<Rightarrow> (string \<times> digest_res rev list) outcome \<Rightarrow> (string \<times> digest_res rev list) outcome \<Rightarrow>
    (int \<times> string \<times> digest_res rev list) outcome" where
  \<comment> \<open>the runs of the three demos\<close>
  "digest_main utils sha256 md5 =
     bind_outcome utils (\<lambda>out1. bind_outcome sha256 (\<lambda>(out2, t2). bind_outcome md5 (\<lambda>(out3, t3).
       Running (0, digest_heading ''utils'' @ out1 @ digest_heading ''sha256'' @ out2 @ digest_heading ''md5'' @ out3 @
         digest_heading ''end'', t2 @ t3))))"

section \<open>Lemmas\<close>

lemma hex_char_plain:
  assumes "d < 16"
  shows "hex_char d \<noteq> CHR ''-''" "hex_char d \<noteq> CHR ''+''" "hex_char d \<noteq> CHR ''x''" "hex_char d \<noteq> CHR ''X''"
proof -
  have "\<forall>d \<in> {0..<16 :: nat}. hex_char d \<notin> {CHR ''-'', CHR ''+'', CHR ''x'', CHR ''X''}" by code_simp
  with assms show "hex_char d \<noteq> CHR ''-''" "hex_char d \<noteq> CHR ''+''" "hex_char d \<noteq> CHR ''x''" "hex_char d \<noteq> CHR ''X''"
    by auto
qed

lemma scan_2x_hex2: "scan_2x (hex2 b @ s) = Some (unat b, s)"
proof -
  let ?h = "hex_char (unat b div 16)" let ?l = "hex_char (unat b mod 16)"
  have "unat b < 2 ^ 8" using unsigned_less [of b] by simp
  then have d: "unat b div 16 < 16" "unat b mod 16 < 16" by simp_all
  note plain = hex_char_plain [OF d(1)] hex_char_plain [OF d(2)]
  have "is_hex ?h" "is_hex ?l" using d by (simp_all add: is_hex_def hex_char_digit)
  moreover have "hex_val [?h, ?l] = unat b" using d by (simp add: hex_val_def hex_char_digit)
  moreover have "ltrim (hex2 b @ s) = ?h # ?l # s" using hex_char_not_space [OF d(1)] by (simp add: ltrim_def hex2_def)
  ultimately show ?thesis using plain by (simp add: scan_2x_def Let_def scan_sign_def)
qed

lemma read_bytes_hex: "read_bytes (length md) (concat (map hex2 md) @ s) = Some md"
  by (induction md) (simp_all add: scan_2x_hex2)

lemma str_to_digest_reads:
  assumes "length str + length type \<le> 46" "popen (digest_command str type) = Some (concat (map hex2 d) @ s)" "length md = length d"
  shows "str_to_digest popen str type md = Running (d, [Acquire Shell_pipe])"
  using assms read_bytes_hex [of d s] by (simp add: str_to_digest_def Let_def digest_command_def)

text \<open>The contract of the library: a context collects the bytes of its updates since it was initialised, and
  \<open>EVP_DigestFinal_ex\<close> gives their digest.\<close>

definition evp_contract :: "'c evp_ops \<Rightarrow> (u8 list \<Rightarrow> u8 list) \<Rightarrow> ('c \<Rightarrow> u8 list option) \<Rightarrow> bool" where
  "evp_contract ops md5 absorbed \<longleftrightarrow>
     (\<forall>c. \<exists>c'. digest_init ops c = Some c' \<and> absorbed c' = Some []) \<and>
     (\<forall>c bs m. absorbed c = Some bs \<longrightarrow> (\<exists>c'. digest_update ops c m = Some c' \<and> absorbed c' = Some (bs @ m))) \<and>
     (\<forall>c bs. absorbed c = Some bs \<longrightarrow> (\<exists>c'. digest_final ops c = Some (c', md5 bs))) \<and>
     (\<forall>c. \<exists>c'. ctx_reset ops c = Some c') \<and> (\<forall>bs. length (md5 bs) = MD5_DIGEST_LENGTH)"

lemma calc_md5_digest:
  assumes "evp_contract ops md5 absorbed"
  shows "\<exists>ctx'. calc_md5 ops ctx buf = Running (ctx', md5 buf)"
proof -
  obtain c1 where 1: "digest_init ops ctx = Some c1" "absorbed c1 = Some []"
    using assms unfolding evp_contract_def by blast
  obtain c2 where 2: "digest_update ops c1 buf = Some c2" "absorbed c2 = Some ([] @ buf)"
    using assms 1(2) unfolding evp_contract_def by blast
  obtain c3 where 3: "digest_final ops c2 = Some (c3, md5 ([] @ buf))"
    using assms 2(2) unfolding evp_contract_def by blast
  obtain c4 where "ctx_reset ops c3 = Some c4" using assms unfolding evp_contract_def by blast
  moreover have "length (md5 buf) = MD5_DIGEST_LENGTH" using assms unfolding evp_contract_def by blast
  ultimately show ?thesis using 1 2 3 by (simp add: calc_md5_def)
qed

lemma md5_all_digests:
  assumes "evp_contract ops md5 absorbed"
  shows "md5_all ops ctx ms md =
    Running (if ms = [] then md else md5 (snd (last ms)), concat (map (\<lambda>(head, msg). print_digest head (md5 msg)) ms))"
proof (induction ms arbitrary: ctx md)
  case (Cons m ms)
  obtain head msg where m: "m = (head, msg)" by (cases m)
  obtain ctx' where "calc_md5 ops ctx msg = Running (ctx', md5 msg)" using calc_md5_digest [OF assms] by blast
  then show ?case using Cons m by simp
qed simp

lemma demo_messages_bytes:
  "map snd demo_messages = [replicate 4096 0, (replicate 4096 0)[0 := 1], (replicate 4096 0)[4095 := 1],
     replicate 4096 0, replicate 2048 0, map char_byte STR_TO_HASH]"
proof -
  let ?z = "replicate 4096 0 :: u8 list"
  have "?z[0 := 1, 0 := 0] = ?z" "?z[4095 := 1, 4095 := 0] = ?z"
    using list_update_id [of ?z 0] list_update_id [of ?z 4095] by (simp_all only: list_update_overwrite nth_replicate)
  moreover have "take 2048 ?z = replicate 2048 0" by (simp only: take_replicate) simp
  ultimately show ?thesis
    by (simp only: demo_messages_def Let_def BUFFER_LENGTH_def list.map prod.sel) simp
qed

section \<open>Properties\<close>

text \<open>What both demos print for a digest function: the six messages, then the shell's digest.\<close>

definition digest_report :: "(u8 list \<Rightarrow> u8 list) \<Rightarrow> string" where
  "digest_report h = concat (map (\<lambda>(head, msg). print_digest head (h msg)) demo_messages) @
     print_digest shell_head (h (map char_byte STR_TO_HASH))"

lemma last_message: "demo_messages \<noteq> []" "snd (last demo_messages) = map char_byte STR_TO_HASH"
  by (simp_all add: demo_messages_def Let_def)

text \<open>
  digests survive printing and parsing. Reading back the hexadecimal digits of a digest, whatever follows
  them, gives the digest; for every string of up to 40 characters hashed by the shell \<open>str_to_digest\<close>
  returns what the shell printed and writes no byte beyond its command buffer.
\<close>
theorem digest_text_roundtrip:
  assumes "length str \<le> 40" "type = ''md5'' \<or> type = ''sha256''" "length md = length d"
    and "popen (digest_command str type) = Some (concat (map hex2 d) @ rest)"
  shows "str_to_digest popen str type md = Running (d, [Acquire Shell_pipe]) \<and>
    print_digest head d = head @ '': '' @ concat (map hex2 d) @ [CHR 0x0A]"
  using str_to_digest_reads [of str type popen d rest md] assms by (auto simp: print_digest_def)

text \<open>
  C29: what the demos print. With a library that keeps its contract and a shell that computes the same function,
  the md5 demo prints the digests of the six messages (the buffer of 4096 zeros, with the first or the last byte 1,
  with all bytes 0 again, its first half, and the string), each independent of what was hashed before with the same
  context, followed by the shell's digest; the sha256 demo does the same. Buffer and context are released, the
  shell's pipe is not. If the shell disagrees the program exits with -1; otherwise the whole program returns 0
  and has left two pipes open.
\<close>
theorem digest_demos_report:
  assumes "evp_contract ops md5 absorbed" and "length ref = MD5_DIGEST_LENGTH" "length d = MD5_DIGEST_LENGTH"
    and "length ref' = SHA256_DIGEST_LENGTH" "length d' = SHA256_DIGEST_LENGTH"
    and "popen (digest_command STR_TO_HASH ''md5'') = Some (concat (map hex2 d) @ rest)"
    and "popen (digest_command STR_TO_HASH ''sha256'') = Some (concat (map hex2 d') @ rest')"
  shows "map snd demo_messages = [replicate 4096 0, (replicate 4096 0)[0 := 1], (replicate 4096 0)[4095 := 1],
      replicate 4096 0, replicate 2048 0, map char_byte STR_TO_HASH] \<and>
    md5sum_demo ops True (Some ctx) md ref popen =
      (if d = md5 (map char_byte STR_TO_HASH)
       then Running (digest_report md5, [Acquire Buffer, Acquire Context, Acquire Shell_pipe, Release Context, Release Buffer])
       else Exited (- 1)) \<and>
    sha256_demo sha256 True ref' popen =
      (if d' = sha256 (map char_byte STR_TO_HASH)
       then Running (digest_report sha256, [Acquire Buffer, Acquire Shell_pipe, Release Buffer])
       else Exited (- 1)) \<and>
    (d = md5 (map char_byte STR_TO_HASH) \<and> d' = sha256 (map char_byte STR_TO_HASH) \<longrightarrow>
      (\<exists>out t. digest_main (utils_demo 16 32 max_size) (sha256_demo sha256 True ref' popen)
          (md5sum_demo ops True (Some ctx) md ref popen) = Running (0, out, t) \<and> leaks t {#Shell_pipe, Shell_pipe#}))"
proof -
  have len: "length STR_TO_HASH = 8"
    by (simp_all add: STR_TO_HASH_def)
  have "str_to_digest popen STR_TO_HASH ''md5'' ref = Running (d, [Acquire Shell_pipe])"
    by (rule str_to_digest_reads [of STR_TO_HASH "''md5''" popen d rest]) (use len in \<open>simp_all add: assms(2,3,6)\<close>)
  moreover have "str_to_digest popen STR_TO_HASH ''sha256'' ref' = Running (d', [Acquire Shell_pipe])"
    by (rule str_to_digest_reads [of STR_TO_HASH "''sha256''" popen d' rest']) (use len in \<open>simp_all add: assms(4,5,7)\<close>)
  ultimately show ?thesis
    using demo_messages_bytes md5_all_digests [OF assms(1), of ctx demo_messages md]
    by (simp add: md5sum_demo_def sha256_demo_def last_message digest_report_def digest_main_def utils_demo_def leaks_def
        MD5_DIGEST_LENGTH_def SHA256_DIGEST_LENGTH_def)
qed

section \<open>Witnesses\<close>

text \<open>A context that is the bytes it has collected, with a toy digest: the length and fifteen zeros.\<close>

definition toy_digest :: "nat \<Rightarrow> u8 list \<Rightarrow> u8 list" where
  "toy_digest n bs = word_of_nat (length bs) # replicate (n - 1) 0"

definition toy_evp :: "u8 list evp_ops" where
  "toy_evp = \<lparr>digest_init = (\<lambda>c. Some []), digest_update = (\<lambda>c m. Some (c @ m)),
     digest_final = (\<lambda>c. Some (c, toy_digest 16 c)), ctx_reset = (\<lambda>c. Some c)\<rparr>"

lemma toy_evp_contract: "evp_contract toy_evp (toy_digest 16) Some"
  by (simp add: evp_contract_def toy_evp_def toy_digest_def MD5_DIGEST_LENGTH_def)

definition toy_shell :: "string \<Rightarrow> string option" where
  "toy_shell cmd = (if cmd = digest_command STR_TO_HASH ''md5''
     then Some (concat (map hex2 (toy_digest 16 (map char_byte STR_TO_HASH))) @ ''  -'')
     else Some (concat (map hex2 (toy_digest 32 (map char_byte STR_TO_HASH))) @ ''  -''))"

theorem digest_text_roundtrip_witness:
  "str_to_digest (\<lambda>_. Some (concat (map hex2 [0xAB, 7]) @ ''  -'')) ''a string'' ''md5'' [0, 0] =
    Running ([0xAB, 7], [Acquire Shell_pipe])"
  using digest_text_roundtrip [of "''a string''" "''md5''" "[0, 0]" "[0xAB, 7]"
      "\<lambda>_. Some (concat (map hex2 [0xAB, 7]) @ ''  -'')" "''  -''"]
  by simp

theorem digest_demos_report_witness:
  "md5sum_demo toy_evp True (Some []) [] (replicate 16 1) toy_shell = Running (digest_report (toy_digest 16),
     [Acquire Buffer, Acquire Context, Acquire Shell_pipe, Release Context, Release Buffer])"
proof -
  have l: "length (replicate 16 1 :: u8 list) = MD5_DIGEST_LENGTH" "length (replicate 32 1 :: u8 list) = SHA256_DIGEST_LENGTH"
    "length (toy_digest 16 m) = MD5_DIGEST_LENGTH" "length (toy_digest 32 m) = SHA256_DIGEST_LENGTH" for m
    by (simp_all add: MD5_DIGEST_LENGTH_def SHA256_DIGEST_LENGTH_def toy_digest_def)
  have "digest_command STR_TO_HASH ''sha256'' \<noteq> digest_command STR_TO_HASH ''md5''" by code_simp
  then have "toy_shell (digest_command STR_TO_HASH ''md5'') = Some (concat (map hex2 (toy_digest 16 (map char_byte STR_TO_HASH))) @ ''  -'')"
    "toy_shell (digest_command STR_TO_HASH ''sha256'') = Some (concat (map hex2 (toy_digest 32 (map char_byte STR_TO_HASH))) @ ''  -'')"
    by (simp_all only: toy_shell_def if_True if_False refl)
  from digest_demos_report [OF toy_evp_contract l(1,3,2,4) this] show ?thesis by simp
qed

end
