(* ===== verification/MmShow.thy ===== *)
theory MmShow
  imports Machine
begin

unbundle bit_operations_syntax

text \<open>
  The memory information module \<open>kernel-module/mm/mm_show\<close>. \<open>core.c\<close> picks what is shown and always refuses to
  stay loaded, \<open>va_map_show.c\<close> prints address ranges with their sizes in binary units, \<open>numa_show.c\<close> walks the
  online nodes and their zones. The kernel's configuration, addresses and node data are arguments; what
  is printed is the result: address ranges, constants and node states as text, node and zone data as values.
\<close>

section \<open>Sizes (va\_map\_show.c)\<close>

definition size_parts :: "u64 \<Rightarrow> u64 \<times> u64 \<times> u64 \<times> u64 \<times> u64" where
  "size_parts len =
     (drop_bit 40 len, drop_bit 30 (len AND (push_bit 40 1 - 1)), drop_bit 20 (len AND (push_bit 30 1 - 1)),
      drop_bit 10 (len AND (push_bit 20 1 - 1)), len AND (push_bit 10 1 - 1))"

definition show_part :: "u64 \<Rightarrow> char \<Rightarrow> string" where
  \<comment> \<open>\<open>if (t) pr_cont ("%luT.", t)\<close>\<close>
  "show_part n unit = (if n \<noteq> 0 then dec_of (unat n) @ [unit, CHR ''.''] else [])"

definition pr_cont_size :: "u64 \<Rightarrow> string" where
  "pr_cont_size len = (case size_parts len of (t, g, m, k, b) \<Rightarrow>
     show_part t CHR ''T'' @ show_part g CHR ''G'' @ show_part m CHR ''M'' @ show_part k CHR ''K'' @ show_part b CHR ''B'')"

definition print_range :: "(string \<Rightarrow> u64) \<Rightarrow> string \<Rightarrow> string \<Rightarrow> string" where
  \<comment> \<open>the macro: both bounds by name and in hexadecimal, then the size\<close>
  "print_range addr start end = start @ ''='' @ printf_hex (unat (addr start)) @ [CHR 0x09] @
     end @ ''='' @ printf_hex (unat (addr end)) @ [CHR 0x09] @ ''length='' @ pr_cont_size (addr end - addr start)"

datatype arch = Arm64 | X86_64 | Other_arch

definition show_int :: "(string \<Rightarrow> int) \<Rightarrow> string \<Rightarrow> string" where
  "show_int const name = name @ ''='' @ dec_of_int (const name)"

definition show_addr :: "(string \<Rightarrow> u64) \<Rightarrow> string \<Rightarrow> string" where
  "show_addr addr name = name @ ''='' @ printf_hex (unat (addr name))"

definition va_map_show :: "arch \<Rightarrow> (string \<Rightarrow> int) \<Rightarrow> (string \<Rightarrow> u64) \<Rightarrow> bool \<Rightarrow> string list" where
  \<comment> \<open>constants, addresses and whether \<open>CONFIG_DYNAMIC_MEMORY_LAYOUT\<close> is set; one string per message\<close>
  "va_map_show a const addr dynamic_layout = (case a of
     Arm64 \<Rightarrow>
       [''-------------- config and const. ---------------'', show_int const ''CONFIG_ARM64_VA_BITS'',
        show_int const ''VA_BITS'' @ '', '' @ show_int const ''VA_BITS_MIN'',
        show_int const ''PAGE_SHIFT'' @ '', '' @ show_int const ''STRUCT_PAGE_MAX_SHIFT'' @ '' --> '' @ show_int const ''VMEMMAP_SHIFT'',
        ''--------------------  user  --------------------'', ''-------------------- kernel --------------------'',
        print_range addr ''PAGE_OFFSET'' ''PAGE_END'', print_range addr ''MODULES_VADDR'' ''MODULES_END'',
        print_range addr ''VMALLOC_START'' ''VMALLOC_END'', print_range addr ''FIXADDR_START'' ''FIXADDR_TOP'',
        print_range addr ''PCI_IO_START'' ''PCI_IO_END'', print_range addr ''VMEMMAP_START'' ''VMEMMAP_END'',
        show_addr addr ''VMEMMAP_SIZE'' @ '' == ((PAGE_END - PAGE_OFFSET) >> VMEMMAP_SHIFT)'' @ [CHR 0x0A, CHR 0x0A]]
   | X86_64 \<Rightarrow>
       [''-------------- config and const. ---------------'', show_int const ''SECTION_SIZE_BITS'',
        ''pgtable_l5_enabled='' @ dec_of_int (const ''pgtable_l5_enabled''),
        show_int const ''MAX_PHYSMEM_BITS'' @ '' MAXMEM='' @ pr_cont_size (addr ''MAXMEM''),
        (if dynamic_layout then ''CONFIG_DYNAMIC_MEMORY_LAYOUT=Y'' else ''CONFIG_DYNAMIC_MEMORY_LAYOUT=N''),
        ''--------------------  user  --------------------'', ''-------------------- kernel --------------------'',
        print_range addr ''GUARD_HOLE_BASE_ADDR'' ''GUARD_HOLE_END_ADDR'', print_range addr ''LDT_BASE_ADDR'' ''LDT_END_ADDR'',
        show_addr addr ''PAGE_OFFSET'', print_range addr ''VMALLOC_START'' ''VMALLOC_END'',
        print_range addr ''FIXADDR_START'' ''FIXADDR_TOP'', show_addr addr ''VMEMMAP_START'' @ [CHR 0x0A]]
   | Other_arch \<Rightarrow> [''va_map_show: not supported in this architecture.'' @ [CHR 0x0A]])"

section \<open>Nodes and zones (numa\_show.c)\<close>

definition hex_text :: "u64 \<Rightarrow> string" where
  \<comment> \<open>\<open>0x%lx\<close>\<close>
  "hex_text w = ''0x'' @ hex_of (unat w)"

datatype zone_type = Dma | Dma32 | Normal | Highmem | Movable | Device

text \<open>The kernel's enumeration has the members that are configured, in this order.\<close>

definition zone_types :: "(zone_type \<Rightarrow> bool) \<Rightarrow> zone_type list" where
  "zone_types configured = filter (\<lambda>z. z \<in> {Normal, Movable} \<or> configured z) [Dma, Dma32, Normal, Highmem, Movable, Device]"

definition zone_value :: "(zone_type \<Rightarrow> bool) \<Rightarrow> zone_type \<Rightarrow> nat" where
  \<comment> \<open>the value of the enumerator\<close>
  "zone_value configured z = length (takeWhile (\<lambda>y. y \<noteq> z) (zone_types configured))"

definition zone_type_strs :: "(zone_type \<Rightarrow> bool) \<Rightarrow> nat \<Rightarrow> string option" where
  \<comment> \<open>the array with its designated initialisers; \<open>None\<close> where nothing is initialised\<close>
  "zone_type_strs configured = map_of (
     (if configured Dma then [(zone_value configured Dma, ''ZONE_DMA'')] else []) @
     (if configured Dma32 then [(zone_value configured Dma32, ''ZONE_DMA32'')] else []) @
     [(zone_value configured Normal, ''ZONE_NORMAL'')] @
     (if configured Highmem then [(zone_value configured Highmem, ''ZONE_HIGHMEM'')] else []) @
     [(zone_value configured Movable, ''ZONE_MOVABLE'')] @
     (if configured Device then [(zone_value configured Device, ''ZONE_DEVICE'')] else []))"

record zone =
  zone_ptr :: u64          \<comment> \<open>the address of the structure\<close>
  zone_idx :: nat
  zone_label :: string     \<comment> \<open>\<open>zone->name\<close>\<close>
  zone_initialized :: bool
  zone_start_pfn :: u64
  zone_managed :: u64
  zone_cma :: u64
  zone_present :: u64
  zone_spanned :: u64
  zone_flags :: u64
  zone_contiguous :: bool

record node =
  node_ptr :: u64          \<comment> \<open>the address of the structure\<close>
  node_id :: nat
  nr_zones :: int
  node_start :: u64
  node_present :: u64
  node_spanned :: u64
  node_zones :: "zone list"

datatype shown =
    Text_line string
  | Uma_match u64 u64 bool  \<comment> \<open>\<open>contig_page_data\<close> and \<open>NODE_DATA (0)\<close>\<close>
  | Numa_match u64 u64 u64 bool  \<comment> \<open>\<open>node_data\<close>, its first entry and \<open>NODE_DATA (0)\<close>\<close>
  | Node_line u64 nat int u64 u64 u64 u64  \<comment> \<open>address, id, zones, first and end frame, present, spanned\<close>
  | Zone_line nat u64 "string option" bool bool  \<comment> \<open>index, address, type, initialised, populated\<close>
  | Zone_detail u64 u64 u64 u64 u64 u64 string u64 bool
      \<comment> \<open>first and end frame, managed, cma, present, spanned, name, flags, contiguous\<close>
  | Unexpected_zone

definition populated_zone :: "zone \<Rightarrow> bool" where "populated_zone z = (zone_present z \<noteq> 0)"
definition zone_end_pfn :: "zone \<Rightarrow> u64" where "zone_end_pfn z = zone_start_pfn z + zone_spanned z"

fun show_zones :: "(nat \<Rightarrow> string option) \<Rightarrow> nat \<Rightarrow> zone list \<Rightarrow> shown list \<times> bool" where
  \<comment> \<open>the zones from index \<open>i\<close> on; whether the loop ran to its end\<close>
  "show_zones names i [] = ([], True)"
| "show_zones names i (z # zs) =
     (if i \<noteq> zone_idx z then ([Unexpected_zone], False)
      else case show_zones names (i + 1) zs of (out, ok) \<Rightarrow>
        (Zone_line i (zone_ptr z) (names (zone_idx z)) (zone_initialized z) (populated_zone z) #
         (if populated_zone z then [Zone_detail (zone_start_pfn z) (zone_end_pfn z) (zone_managed z) (zone_cma z)
            (zone_present z) (zone_spanned z) (zone_label z) (zone_flags z) (zone_contiguous z)] else []) @ out, ok))"

text \<open>The accessors by node number that the kernel offers beside its data structure.\<close>

record node_api =
  node_data :: "nat \<Rightarrow> node"
  node_start_pfn :: "nat \<Rightarrow> u64"
  node_end_pfn :: "nat \<Rightarrow> u64"
  node_present_pages :: "nat \<Rightarrow> u64"
  node_spanned_pages :: "nat \<Rightarrow> u64"

definition node_line :: "node_api \<Rightarrow> bool \<Rightarrow> nat \<Rightarrow> shown" where
  "node_line api direct_access nid =
     (if direct_access then let nd = node_data api nid in
        Node_line (node_ptr nd) (node_id nd) (nr_zones nd) (node_start nd) (node_start nd + node_spanned nd) (node_present nd) (node_spanned nd)
      else Node_line (node_ptr (node_data api nid)) nid (nr_zones (node_data api nid)) (node_start_pfn api nid) (node_end_pfn api nid)
        (node_present_pages api nid) (node_spanned_pages api nid))"

fun show_nodes :: "node_api \<Rightarrow> (nat \<Rightarrow> string option) \<Rightarrow> bool \<Rightarrow> nat list \<Rightarrow> shown list" where
  \<comment> \<open>\<open>for_each_online_node\<close>; \<open>direct_access\<close> alternates, an unexpected zone ends the function\<close>
  "show_nodes api names direct_access [] = []"
| "show_nodes api names direct_access (nid # nids) = node_line api direct_access nid #
     (case show_zones names 0 (node_zones (node_data api nid)) of (out, ok) \<Rightarrow>
        if ok then out @ show_nodes api names (\<not> direct_access) nids else out)"

text \<open>Sizes of the kernel's structures and the limits of its configuration.\<close>

record mm_spec =
  pglist_data_size :: u64
  zone_size :: u64
  zonelist_size :: u64
  free_area_size :: u64
  MAX_NUMNODES :: int
  MAX_NR_ZONES :: int
  MAX_ZONELISTS :: int
  MAX_PAGE_ORDER :: int

definition spec_line :: "string \<Rightarrow> u64 \<Rightarrow> string \<Rightarrow> int \<Rightarrow> string \<Rightarrow> u64 \<Rightarrow> string" where
  "spec_line struct bytes limit_name limit prod_text product = ''sizeof(struct '' @ struct @ '')='' @ hex_text bytes @ ''='' @
     dec_of (unat bytes) @ '', '' @ limit_name @ ''='' @ dec_of_int limit @ '', '' @ prod_text @ hex_of (unat product)"

definition show_spec :: "mm_spec \<Rightarrow> string list" where
  \<comment> \<open>the products wrap like \<open>unsigned long\<close>; the last line has \<open>x0\<close> in its text\<close>
  "show_spec c =
     [spec_line ''pglist_data'' (pglist_data_size c) ''MAX_NUMNODES'' (MAX_NUMNODES c) ''prod=0x''
        (pglist_data_size c * word_of_int (MAX_NUMNODES c)),
      spec_line ''zone'' (zone_size c) ''MAX_NR_ZONES'' (MAX_NR_ZONES c) ''prod=0x'' (zone_size c * word_of_int (MAX_NR_ZONES c)),
      spec_line ''zonelist'' (zonelist_size c) ''MAX_ZONELISTS'' (MAX_ZONELISTS c) ''prod=0x''
        (zonelist_size c * word_of_int (MAX_ZONELISTS c)),
      spec_line ''free_area'' (free_area_size c) ''MAX_PAGE_ORDER'' (MAX_PAGE_ORDER c) ''adjusted_prod=x0''
        (free_area_size c * word_of_int (MAX_PAGE_ORDER c + 1))]"

definition show_numa_instances :: "mm_spec \<Rightarrow> node_api \<Rightarrow> (nat \<Rightarrow> string option) \<Rightarrow> nat list \<Rightarrow> shown list" where
  "show_numa_instances c api names online = map Text_line (show_spec c) @ show_nodes api names False online"

definition pr_node_state_mask :: "u64 list \<Rightarrow> string" where
  "pr_node_state_mask bits = '' node_mask ='' @ concat (map (\<lambda>w. CHR '' '' # hex_text w) bits)"

definition show_node_states :: "int \<Rightarrow> (string \<Rightarrow> int \<times> u64 list) \<Rightarrow> string list" where
  \<comment> \<open>\<open>NR_NODE_STATES\<close>, and for each state how many nodes have it and their mask\<close>
  "show_node_states nr_states state =
     [''[NODE_STATES]: start'', ''NR_NODE_STATES = '' @ dec_of_int nr_states @ '', output some of the states I care about...''] @
     map (\<lambda>n. CHR 0x09 # n @ [CHR 0x09] @ ''count='' @ dec_of_int (fst (state n)) @ pr_node_state_mask (snd (state n)))
       [''N_POSSIBLE'', ''N_ONLINE'', ''N_NORMAL_MEMORY'', ''N_CPU'', ''N_MEMORY''] @ [''[NODE_STATES]: end'']"

text \<open>What \<open>numa_show\<close> reads of the kernel.\<close>

record mm_env =
  nr_node_states :: int
  node_state :: "string \<Rightarrow> int \<times> u64 list"
  root_ptr :: u64         \<comment> \<open>the address of \<open>contig_page_data\<close>, or \<open>node_data\<close>\<close>
  node_data_0 :: u64      \<comment> \<open>\<open>node_data[0]\<close>\<close>
  spec_of :: mm_spec
  api_of :: node_api
  zone_configured :: "zone_type \<Rightarrow> bool"
  online_nodes :: "nat list"

definition numa_show :: "bool \<Rightarrow> mm_env \<Rightarrow> shown list" where
  \<comment> \<open>whether \<open>CONFIG_NUMA\<close> is set\<close>
  "numa_show config_numa e = (let ptr_0 = node_ptr (node_data (api_of e) 0) in
     [Text_line (if config_numa then ''[NUMA-SHOW]: start'' else ''[UMA-SHOW]: start'')] @
     map Text_line (show_node_states (nr_node_states e) (node_state e)) @
     [if config_numa then Numa_match (root_ptr e) (node_data_0 e) ptr_0 (node_data_0 e = ptr_0)
      else Uma_match (root_ptr e) ptr_0 (root_ptr e = ptr_0)] @
     show_numa_instances (spec_of e) (api_of e) (zone_type_strs (zone_configured e)) (online_nodes e) @
     [Text_line (if config_numa then ''[NUMA-SHOW]: end'' @ [CHR 0x0A] else ''[UMA-SHOW]: end'')])"

section \<open>What is shown (core.c)\<close>

definition mm_show_init :: "string \<Rightarrow> shown list \<Rightarrow> string list \<Rightarrow> int \<times> shown list" where
  \<comment> \<open>the parameter of the module, and what \<open>numa_show\<close> and \<open>va_map_show\<close> print\<close>
  "mm_show_init show_target numa va = (let show_all = (show_target = ''all'') in
     (- EPERM, (if show_all \<or> show_target = ''numa'' then numa else []) @
       (if show_all \<or> show_target = ''va'' then map Text_line va else [])))"

section \<open>Lemmas\<close>

lemma size_parts_values:
  assumes "size_parts len = (t, g, m, k, b)"
  shows "unat t = unat len div 2 ^ 40" "unat g = unat len mod 2 ^ 40 div 2 ^ 30" "unat m = unat len mod 2 ^ 30 div 2 ^ 20"
    "unat k = unat len mod 2 ^ 20 div 2 ^ 10" "unat b = unat len mod 2 ^ 10"
proof -
  have mask: "len AND (push_bit n 1 - 1) = take_bit n len" for n
    by (simp add: take_bit_eq_mask mask_eq_exp_minus_1 push_bit_eq_mult)
  have "t = drop_bit 40 len" "g = drop_bit 30 (take_bit 40 len)" "m = drop_bit 20 (take_bit 30 len)"
    "k = drop_bit 10 (take_bit 20 len)" "b = take_bit 10 len"
    using assms by (simp_all add: size_parts_def mask del: push_bit_of_1)
  moreover have "unat (drop_bit n w) = unat w div 2 ^ n" "unat (take_bit n w) = unat w mod 2 ^ n" for n and w :: u64
    using unat_drop_bit_eq [of n w] unsigned_take_bit_eq [of n w, where ?'a = nat]
    by (simp_all only: drop_bit_eq_div [of n "unat w"] take_bit_eq_mod [of n "unat w"])
  ultimately show "unat t = unat len div 2 ^ 40" "unat g = unat len mod 2 ^ 40 div 2 ^ 30" "unat m = unat len mod 2 ^ 30 div 2 ^ 20"
    "unat k = unat len mod 2 ^ 20 div 2 ^ 10" "unat b = unat len mod 2 ^ 10"
    by (simp_all only:)
qed

lemma size_parts_sum:
  assumes "size_parts len = (t, g, m, k, b)"
  shows "unat len = unat t * 2 ^ 40 + unat g * 2 ^ 30 + unat m * 2 ^ 20 + unat k * 2 ^ 10 + unat b"
    "unat g < 1024" "unat m < 1024" "unat k < 1024" "unat b < 1024"
proof -
  note v = size_parts_values [OF assms]
  have split: "n mod 2 ^ (i + 10) = n mod 2 ^ (i + 10) div 2 ^ i * 2 ^ i + n mod 2 ^ i" for n i :: nat
    using div_mult_mod_eq [of "n mod 2 ^ (i + 10)" "2 ^ i"] by (simp add: mod_mod_cancel le_imp_power_dvd)
  show "unat len = unat t * 2 ^ 40 + unat g * 2 ^ 30 + unat m * 2 ^ 20 + unat k * 2 ^ 10 + unat b"
    using div_mult_mod_eq [of "unat len" "2 ^ 40"] split [of "unat len" 30] split [of "unat len" 20] split [of "unat len" 10]
    unfolding v by (simp only: numeral_plus_numeral arith_simps)
  show "unat g < 1024" "unat m < 1024" "unat k < 1024" "unat b < 1024"
    unfolding v by (simp_all add: less_mult_imp_div_less)
qed

text \<open>Reading a size back: a number, its unit and a dot, and so on; the value of what is read.\<close>

definition unit_weight :: "char \<Rightarrow> nat option" where
  "unit_weight c = map_of [(CHR ''T'', 2 ^ 40), (CHR ''G'', 2 ^ 30), (CHR ''M'', 2 ^ 20), (CHR ''K'', 2 ^ 10), (CHR ''B'', 1)] c"

fun read_parts :: "nat \<Rightarrow> string \<Rightarrow> nat option" where
  \<comment> \<open>at most so many parts\<close>
  "read_parts n [] = Some 0"
| "read_parts 0 (c # cs) = None"
| "read_parts (Suc n) (c # cs) = (case dropWhile c_isdigit (c # cs) of
     u # d # rest \<Rightarrow> (if d \<noteq> CHR ''.'' then None else case (unit_weight u, read_parts n rest) of
       (Some w, Some v) \<Rightarrow> Some (dec_val (takeWhile c_isdigit (c # cs)) * w + v)
     | _ \<Rightarrow> None)
   | _ \<Rightarrow> None)"

lemma read_parts_part:
  assumes "\<not> c_isdigit u" "unit_weight u = Some w" "read_parts n s = Some v"
  shows "read_parts (Suc n) (show_part x u @ s) = Some (unat x * w + v)"
proof (cases "x = 0")
  case True
  have mono: "read_parts n s = Some v \<Longrightarrow> read_parts (Suc n) s = Some v" for n s v
  proof (induction n s arbitrary: v rule: read_parts.induct)
    case (3 n c cs)
    then show ?case
      by (cases "dropWhile c_isdigit (c # cs)"; cases "tl (dropWhile c_isdigit (c # cs))")
        (auto split: if_splits option.splits)
  qed auto
  then show ?thesis using True assms(3) by (simp add: show_part_def)
next
  case False
  let ?t = "dec_of (unat x) @ u # CHR ''.'' # s"
  have sp: "takeWhile c_isdigit ?t = dec_of (unat x)" "dropWhile c_isdigit ?t = u # CHR ''.'' # s"
    using span_digits [OF dec_of_digits, of "u # CHR ''.'' # s" "unat x"] assms(1) by simp_all
  obtain c cs where t: "?t = c # cs" by (cases "dec_of (unat x)") auto
  have "read_parts (Suc n) ?t = Some (dec_val (dec_of (unat x)) * w + v)"
    using sp assms(2,3) unfolding t by (simp del: dropWhile.simps takeWhile.simps)
  then show ?thesis using False by (simp add: show_part_def)
qed

lemma read_size_text: "read_parts 5 (pr_cont_size len) = Some (unat len)"
proof -
  obtain t g m k b where p: "size_parts len = (t, g, m, k, b)" by (cases "size_parts len") auto
  have u: "\<not> c_isdigit CHR ''T''" "\<not> c_isdigit CHR ''G''" "\<not> c_isdigit CHR ''M''" "\<not> c_isdigit CHR ''K''" "\<not> c_isdigit CHR ''B''"
    by code_simp+
  have w: "unit_weight CHR ''T'' = Some (2 ^ 40)" "unit_weight CHR ''G'' = Some (2 ^ 30)"
    "unit_weight CHR ''M'' = Some (2 ^ 20)" "unit_weight CHR ''K'' = Some (2 ^ 10)" "unit_weight CHR ''B'' = Some 1"
    by (simp_all add: unit_weight_def)
  have "read_parts 0 [] = Some 0" by simp
  note r = read_parts_part [OF u(5) w(5) this, of b]
  note r = read_parts_part [OF u(4) w(4) r, of k]
  note r = read_parts_part [OF u(3) w(3) r, of m]
  note r = read_parts_part [OF u(2) w(2) r, of g]
  note r = read_parts_part [OF u(1) w(1) r, of t]
  moreover have "Suc (Suc (Suc (Suc (Suc 0)))) = 5" by simp
  ultimately have "read_parts 5 (pr_cont_size len) =
      Some (unat t * 2 ^ 40 + (unat g * 2 ^ 30 + (unat m * 2 ^ 20 + (unat k * 2 ^ 10 + (unat b * 1 + 0)))))"
    unfolding pr_cont_size_def p prod.case by (simp only: append_Nil2)
  then show ?thesis using size_parts_sum(1) [OF p] by simp
qed

section \<open>Nodes\<close>

text \<open>What the accessors by number promise: they read the node's data.\<close>

definition node_api_ok :: "node_api \<Rightarrow> bool" where
  "node_api_ok api \<longleftrightarrow> (\<forall>nid. let nd = node_data api nid in node_id nd = nid \<and> node_start_pfn api nid = node_start nd \<and>
     node_end_pfn api nid = node_start nd + node_spanned nd \<and> node_present_pages api nid = node_present nd \<and>
     node_spanned_pages api nid = node_spanned nd)"

definition zones_in_order :: "zone list \<Rightarrow> bool" where
  "zones_in_order zs \<longleftrightarrow> map zone_idx zs = [0..<length zs]"

definition zone_report :: "(nat \<Rightarrow> string option) \<Rightarrow> zone \<Rightarrow> shown list" where
  "zone_report names z = Zone_line (zone_idx z) (zone_ptr z) (names (zone_idx z)) (zone_initialized z) (populated_zone z) #
     (if populated_zone z then [Zone_detail (zone_start_pfn z) (zone_end_pfn z) (zone_managed z) (zone_cma z)
        (zone_present z) (zone_spanned z) (zone_label z) (zone_flags z) (zone_contiguous z)] else [])"

definition node_report :: "node_api \<Rightarrow> (nat \<Rightarrow> string option) \<Rightarrow> nat \<Rightarrow> shown list" where
  \<comment> \<open>what is to be shown of a node\<close>
  "node_report api names nid = node_line api True nid # concat (map (zone_report names) (node_zones (node_data api nid)))"

lemma node_line_same: "node_api_ok api \<Longrightarrow> node_line api d nid = node_line api True nid"
  by (simp add: node_api_ok_def node_line_def Let_def)

lemma show_zones_in_order:
  "map zone_idx zs = [i..<i + length zs] \<Longrightarrow> show_zones names i zs = (concat (map (zone_report names) zs), True)"
proof (induction zs arbitrary: i)
  case (Cons z zs)
  have "zone_idx z = i" "map zone_idx zs = [i + 1..<i + 1 + length zs]"
    using Cons.prems by (simp_all add: upt_conv_Cons del: upt_Suc)
  with Cons.IH [of "i + 1"] show ?case by (simp add: zone_report_def)
qed simp

lemma show_nodes_report:
  assumes "node_api_ok api" "\<And>nid. zones_in_order (node_zones (node_data api nid))"
  shows "show_nodes api names d nids = concat (map (node_report api names) nids)"
proof (induction nids arbitrary: d)
  case (Cons nid nids)
  have "show_zones names 0 (node_zones (node_data api nid)) =
      (concat (map (zone_report names) (node_zones (node_data api nid))), True)"
    using show_zones_in_order [of "node_zones (node_data api nid)" 0] assms(2) [of nid] by (simp add: zones_in_order_def)
  then show ?case using Cons node_line_same [OF assms(1)] by (simp add: node_report_def)
qed simp

fun is_node_line :: "shown \<Rightarrow> bool" where
  "is_node_line (Node_line p n z s e r w) = True"
| "is_node_line _ = False"

lemma no_node_line [simp]:
  "filter is_node_line (map Text_line ts) = []" "filter is_node_line (zone_report names z) = []"
  "filter is_node_line (concat (map (zone_report names) zs)) = []"
  by (simp add: filter_empty_conv, simp add: zone_report_def, induction zs, simp_all add: zone_report_def)

lemma node_lines_of_reports:
  "filter is_node_line (concat (map (node_report api names) nids)) = map (node_line api True) nids"
  by (induction nids) (simp_all add: node_report_def node_line_def Let_def)

lemma numa_show_node_lines:
  assumes "node_api_ok (api_of e)" "\<And>nid. zones_in_order (node_zones (node_data (api_of e) nid))"
  shows "filter is_node_line (numa_show cn e) = map (node_line (api_of e) True) (online_nodes e)"
  by (simp add: numa_show_def show_numa_instances_def show_nodes_report [OF assms] node_lines_of_reports Let_def)

fun zone_name :: "zone_type \<Rightarrow> string" where
  "zone_name Dma = ''ZONE_DMA''" | "zone_name Dma32 = ''ZONE_DMA32''" | "zone_name Normal = ''ZONE_NORMAL''"
| "zone_name Highmem = ''ZONE_HIGHMEM''" | "zone_name Movable = ''ZONE_MOVABLE''" | "zone_name Device = ''ZONE_DEVICE''"

lemma zone_type_strs_named:
  "i < length (zone_types configured) \<Longrightarrow> zone_type_strs configured i = Some (zone_name (zone_types configured ! i))"
  by (cases "configured Dma"; cases "configured Dma32"; cases "configured Highmem"; cases "configured Device")
    (auto simp: zone_type_strs_def zone_value_def zone_types_def less_Suc_eq numeral_eq_Suc)

section \<open>Properties\<close>

text \<open>
  C31: a size is printed without loss. The units in which \<open>pr_cont_size\<close> prints a 64-bit size can be read back to
  exactly that size, every number but the first is below 1024, and a size of 0 prints nothing.
\<close>
theorem size_text_roundtrip:
  "read_parts 5 (pr_cont_size len) = Some (unat len) \<and> pr_cont_size 0 = [] \<and>
   (case size_parts len of (t, g, m, k, b) \<Rightarrow> unat g < 1024 \<and> unat m < 1024 \<and> unat k < 1024 \<and> unat b < 1024)"
proof -
  have "pr_cont_size 0 = []" by (simp add: pr_cont_size_def size_parts_def show_part_def)
  then show ?thesis using read_size_text size_parts_sum(2-5) by (cases "size_parts len") auto
qed

text \<open>
  C30: both ways of reading a node show the same. If the accessors by number read the node's data and every node's
  zones are in order, \<open>show_numa_instances\<close> shows the complete report of every online node, although it takes
  the data structure itself for every second node only. Loading the module fails with \<open>-EPERM\<close> whatever is
  asked for, and \<open>all\<close> and \<open>numa\<close>, but no other word, show one line for every online node, in order. Every zone
  index has the name of its type in every configuration. A zone out of order ends the function at that zone.
\<close>
theorem numa_instances_complete:
  assumes "node_api_ok (api_of e)" "\<And>nid. zones_in_order (node_zones (node_data (api_of e) nid))"
  shows "show_numa_instances c (api_of e) (zone_type_strs configured) online =
      map Text_line (show_spec c) @ concat (map (node_report (api_of e) (zone_type_strs configured)) online) \<and>
    fst (mm_show_init w (numa_show cn e) va) = - EPERM \<and>
    filter is_node_line (snd (mm_show_init w (numa_show cn e) va)) =
      (if w \<in> {''all'', ''numa''} then map (node_line (api_of e) True) (online_nodes e) else []) \<and>
    (\<forall>i < length (zone_types configured). zone_type_strs configured i = Some (zone_name (zone_types configured ! i))) \<and>
    (\<forall>i z zs. i \<noteq> zone_idx z \<longrightarrow> show_zones names i (z # zs) = ([Unexpected_zone], False))"
  using show_nodes_report [OF assms] zone_type_strs_named numa_show_node_lines [OF assms]
  by (simp add: show_numa_instances_def mm_show_init_def Let_def)

section \<open>Witnesses\<close>

definition demo_zone :: "nat \<Rightarrow> u64 \<Rightarrow> zone" where
  "demo_zone i n = \<lparr>zone_ptr = 0x2000 + word_of_nat i, zone_idx = i, zone_label = ''zone'', zone_initialized = True, zone_start_pfn = 16, zone_managed = n, zone_cma = 0,
     zone_present = n, zone_spanned = n, zone_flags = 0, zone_contiguous = True\<rparr>"

definition demo_node :: "nat \<Rightarrow> node" where
  "demo_node nid = \<lparr>node_ptr = 0x1000, node_id = nid, nr_zones = 2, node_start = 16, node_present = 8, node_spanned = 8,
     node_zones = [demo_zone 0 8, demo_zone 1 0]\<rparr>"

definition demo_api :: node_api where
  "demo_api = \<lparr>node_data = demo_node, node_start_pfn = (\<lambda>_. 16), node_end_pfn = (\<lambda>_. 24),
     node_present_pages = (\<lambda>_. 8), node_spanned_pages = (\<lambda>_. 8)\<rparr>"

definition demo_mm_env :: mm_env where
  "demo_mm_env = \<lparr>nr_node_states = 5, node_state = (\<lambda>_. (2, [3])), root_ptr = 0x900, node_data_0 = 0x1000,
     spec_of = \<lparr>pglist_data_size = 4096, zone_size = 512, zonelist_size = 64, free_area_size = 88, MAX_NUMNODES = 64,
       MAX_NR_ZONES = 2, MAX_ZONELISTS = 2, MAX_PAGE_ORDER = 10\<rparr>,
     api_of = demo_api, zone_configured = (\<lambda>_. False), online_nodes = [0, 1]\<rparr>"

theorem numa_instances_complete_witness:
  "filter is_node_line (snd (mm_show_init ''all'' (numa_show True demo_mm_env) [])) = map (node_line demo_api True) [0, 1]"
proof -
  have api: "api_of demo_mm_env = demo_api" "online_nodes demo_mm_env = [0, 1]" by (simp_all add: demo_mm_env_def)
  have "node_api_ok demo_api" by (simp add: node_api_ok_def demo_api_def demo_node_def)
  moreover have "zones_in_order (node_zones (node_data demo_api nid))" for nid
    by (simp add: zones_in_order_def demo_api_def demo_node_def demo_zone_def upt_rec)
  ultimately show ?thesis using numa_instances_complete [of demo_mm_env, unfolded api] by simp
qed

end
