(* ===== verification/KunitDemo.thy ===== *)
theory KunitDemo
  imports CPrelude
begin

text \<open>
  The three modules under \<open>kernel-module/kunit\<close> that exist to be tested: integer arithmetic
  (\<open>internal_demo.c\<close>, \<open>static_demo.c\<close>) and shifts and a function with a test stub (\<open>dynamic_demo.c\<close>). \<open>int\<close> and
  \<open>unsigned int\<close> are 32-bit words, read with \<open>sint\<close> and \<open>unat\<close>; the kernel is compiled so that signed
  overflow wraps around. A shift by the width or more is undefined, \<open>None\<close>.
\<close>

section \<open>internal\_demo.c\<close>

definition demo_public_increment :: "u32 \<Rightarrow> u32 \<Rightarrow> u32 \<times> u32" where
  \<comment> \<open>the value returned and the new \<open>*element\<close>\<close>
  "demo_public_increment element inc_value = (let e = element + inc_value in (e, e))"

definition demo_public_decrement :: "u32 \<Rightarrow> u32 \<Rightarrow> u32 \<times> u32" where
  "demo_public_decrement element dec_value = (let e = element - dec_value in (e, e))"

definition demo_static_add :: "u32 \<Rightarrow> u32 \<Rightarrow> u32" where "demo_static_add a b = a + b"

section \<open>static\_demo.c\<close>

definition demo_static_multiply :: "u32 \<Rightarrow> u32 \<Rightarrow> u32" where "demo_static_multiply a b = a * b"

function power_loop :: "u32 \<Rightarrow> u32 \<Rightarrow> u32 \<Rightarrow> u32" where
  \<comment> \<open>\<open>while (power--) value *= base;\<close>\<close>
  "power_loop base pw v0 = (if pw = 0 then v0 else power_loop base (pw - 1) (v0 * base))"
  by auto
termination by (relation "measure (\<lambda>(base, pw, v0). unat pw)") (auto simp: unat_gt_0 measure_unat)

declare power_loop.simps [simp del]

definition demo_exported_power :: "u32 \<Rightarrow> u32 \<Rightarrow> u32" where
  "demo_exported_power base pw = (if base = 0 then 0 else power_loop base pw 1)"

section \<open>dynamic\_demo.c\<close>

definition demo_static_shift_left :: "u32 \<Rightarrow> u32 \<Rightarrow> u32 option" where
  "demo_static_shift_left x shift = (if unat shift < 32 then Some (push_bit (unat shift) x) else None)"

definition demo_exported_shift_right :: "u32 \<Rightarrow> u32 \<Rightarrow> u32 option" where
  "demo_exported_shift_right x shift = (if unat shift < 32 then Some (drop_bit (unat shift) x) else None)"

text \<open>\<open>KUNIT_STATIC_STUB_REDIRECT\<close>: an active stub is called instead; it may keep a state of its own.\<close>

definition demo_inner_function :: "('s \<Rightarrow> u32 \<Rightarrow> u32 \<times> 's) option \<Rightarrow> 's \<Rightarrow> u32 \<Rightarrow> u32 \<times> 's" where
  "demo_inner_function stub s param = (case stub of Some f \<Rightarrow> f s param | None \<Rightarrow> (- word_of_int ENOSYS, s))"

definition demo_outer_function :: "('s \<Rightarrow> u32 \<Rightarrow> u32 \<times> 's) option \<Rightarrow> 's \<Rightarrow> u32 \<Rightarrow> u32 \<times> 's" where
  "demo_outer_function stub s param = (case demo_inner_function stub s param of
     (ret, s') \<Rightarrow> if sint ret < 0 then (ret, s') else (0, s'))"

text \<open>The modules' init functions call everything once and return 0; the last value is \<open>temp\<close>, or the state of the stub.\<close>

definition internal_demo_init :: "int \<times> u32" where
  "internal_demo_init = (let temp = snd (demo_public_increment 0 1); temp' = snd (demo_public_decrement temp 1);
     _ = demo_static_add 1 2 in (0, temp'))"

definition static_demo_init :: "int \<times> u32" where
  "static_demo_init = (let _ = demo_static_multiply (- 1) (- 2); v = demo_exported_power 2 3 in (0, v))"

definition dynamic_demo_init :: "('s \<Rightarrow> u32 \<Rightarrow> u32 \<times> 's) option \<Rightarrow> 's \<Rightarrow> int \<times> 's" where
  "dynamic_demo_init stub s = (let _ = demo_static_shift_left 2 2; _ = demo_exported_shift_right 16 2;
     (_, s') = demo_outer_function stub s 1 in (0, s'))"

section \<open>Lemmas\<close>

lemma power_loop_power: "power_loop base pw v0 = v0 * base ^ unat pw"
proof (induction base pw v0 rule: power_loop.induct)
  case (1 base pw v0)
  show ?case
  proof (cases "pw = 0")
    case True
    then show ?thesis by (simp add: power_loop.simps)
  next
    case False
    then obtain n where n: "unat pw = Suc n" by (cases "unat pw") (auto simp: unat_eq_0)
    then have "unat (pw - 1) = n" using False by (simp add: unat_minus_one)
    with 1 False n show ?thesis by (subst power_loop.simps) (simp add: ac_simps)
  qed
qed

lemma sint_exact: "- (2 ^ 31) \<le> i \<Longrightarrow> i < 2 ^ 31 \<Longrightarrow> sint (word_of_int i :: u32) = i"
  unfolding sint_sbintrunc' by (intro signed_take_bit_int_eq_self) simp_all

lemma power_of_int: "(x :: u32) ^ n = word_of_int (sint x ^ n)"
  by (induction n) (simp_all add: wi_hom_syms)

section \<open>Properties\<close>

text \<open>
  C37: the power function computes powers. Its result is the power of the base modulo \<open>2 ^ 32\<close>, and the exact signed
  power whenever that fits an \<open>int\<close>, with one exception: 0 to the power 0 is 0.
\<close>
theorem power_exact:
  "demo_exported_power base pw = (if base = 0 \<and> pw = 0 then 0 else base ^ unat pw) \<and>
   (base \<noteq> 0 \<and> - (2 ^ 31) \<le> sint base ^ unat pw \<and> sint base ^ unat pw < 2 ^ 31 \<longrightarrow>
     sint (demo_exported_power base pw) = sint base ^ unat pw)"
proof -
  have "base = 0 \<Longrightarrow> pw \<noteq> 0 \<Longrightarrow> base ^ unat pw = 0" by (simp add: zero_power unat_gt_0)
  then have p: "demo_exported_power base pw = (if base = 0 \<and> pw = 0 then 0 else base ^ unat pw)"
    by (simp add: demo_exported_power_def power_loop_power)
  have "sint (demo_exported_power base pw) = sint base ^ unat pw"
    if "base \<noteq> 0" "- (2 ^ 31) \<le> sint base ^ unat pw" "sint base ^ unat pw < 2 ^ 31"
  proof -
    have "demo_exported_power base pw = base ^ unat pw" using p that(1) by simp
    from trans [OF this power_of_int] show ?thesis using sint_exact [OF that(2,3)] by (simp only:)
  qed
  with p show ?thesis by blast
qed

text \<open>
  the other functions. Decrementing by what was incremented restores the element, wrap-around included, and
  both are exact when the result fits; a left shift by less than the width keeps the low bits of the
  product with a power of two and a right shift divides, shifts by 32 or more are undefined; the outer function
  passes on every negative result of the inner one (\<open>-ENOSYS\<close> without a stub) and turns all others into 0, calling
  an active stub exactly once.
\<close>
theorem kunit_functions:
  "snd (demo_public_decrement (snd (demo_public_increment e v)) v) = e \<and>
   (- (2 ^ 31) \<le> sint e + sint v \<and> sint e + sint v < 2 ^ 31 \<longrightarrow> sint (fst (demo_public_increment e v)) = sint e + sint v) \<and>
   (if unat n < 32 then demo_static_shift_left x n = Some (x * 2 ^ unat n) \<and>
        map_option unat (demo_exported_shift_right x n) = Some (unat x div 2 ^ unat n)
    else demo_static_shift_left x n = None \<and> demo_exported_shift_right x n = None) \<and>
   demo_outer_function None s p = (- word_of_int ENOSYS, s) \<and>
   demo_outer_function (Some f) s p = (if sint (fst (f s p)) < 0 then fst (f s p) else 0, snd (f s p))"
proof -
  have "e + v = word_of_int (sint e + sint v)" by simp
  then have "- (2 ^ 31) \<le> sint e + sint v \<and> sint e + sint v < 2 ^ 31 \<Longrightarrow> sint (e + v) = sint e + sint v"
    using sint_exact by metis
  moreover have "sint (- word_of_int ENOSYS :: u32) < 0" by code_simp
  ultimately show ?thesis
    using unat_drop_bit_eq [of "unat n" x]
    by (simp add: Let_def demo_public_increment_def demo_public_decrement_def demo_static_shift_left_def push_bit_eq_mult
        demo_exported_shift_right_def demo_outer_function_def demo_inner_function_def drop_bit_eq_div split_beta)
qed

section \<open>Witnesses\<close>

theorem power_exact_witness: "sint (demo_exported_power (- 3) 3) = - 27 \<and> demo_exported_power 0 0 = 0"
proof -
  have "sint (- 3 :: u32) = - 3" "unat (3 :: u32) = 3" by code_simp+
  then show ?thesis using power_exact [of "- 3" 3] power_exact [of 0 0] by simp
qed

theorem kunit_functions_witness:
  "sint (fst (demo_public_increment 1 (- 2))) = - 1 \<and> demo_static_shift_left 1 3 = Some 8 \<and>
   demo_static_shift_left 1 32 = None"
proof -
  have "sint (1 :: u32) = 1" "sint (- 2 :: u32) = - 2" "unat (3 :: u32) = 3" "unat (32 :: u32) = 32" by code_simp+
  then show ?thesis
    using kunit_functions [of 1 "- 2" 3 1 "()" 0 "\<lambda>s p. (0, s)"]
      kunit_functions [of 1 "- 2" 32 1 "()" 0 "\<lambda>s p. (0, s)"] by simp
qed

end
