(* ===== verification/Spec2Isabelle.thy ===== *)
theory Spec2Isabelle
  imports Config Memdev PageQuery Racer SysfsParser WorkQueue InetSocket GenlSession UnixSocket SysfsDemo Klog PosixSem
    CLayout PerfCount NumaDemo StdioDemo Digest MmShow KunitDemo
begin

text \<open>
  \<^bold>\<open>A verification library for the C programs of the snippet collection.\<close>

  The repository is a collection of self-contained programs: kernel modules with the user programs that talk to
  them (\<open>src/kernel-module\<close>), user programs for Linux interfaces (\<open>src/linux-c\<close>) and for the C language
  (\<open>src/c\<close>). Each program is one component here, modelled as it is written: a structure is a record, an enumeration
  a datatype, a function a definition of the same name, an error exit a branch, a fixed-width integer a word. What is
  not in the repository (the kernel's and the C library's functions, the allocators, the file system, the
  scheduler) is an argument of the definitions, with what the code relies on as a hypothesis.

  \<^bold>\<open>Foundations.\<close>
  \<^item> \<open>CPrelude\<close>: word types, error numbers, and the C library's character, number and string functions the programs
    call (\<open>isspace\<close>, \<open>strtol\<close>, \<open>strtoul\<close>, \<open>fgets\<close>, decimal and hexadecimal \<open>printf\<close> and \<open>scanf\<close>), with round trips.
  \<^item> \<open>Machine\<close>: \<open>outcome\<close> (a process goes on, exits, or dereferences a bad pointer); reachability
    and the locales \<open>invariant_system\<close> and \<open>counted_system\<close> (interpreted by \<open>Memdev\<close>, \<open>WorkQueue\<close>, \<open>Racer\<close> and
    \<open>PosixSem\<close> on their step relations); traces of acquired and released resources with \<open>balanced\<close> and
    \<open>leaks\<close>, and the locale \<open>clean_call\<close> of operations that release what they take (interpreted by the ioctl, the
    pagemap readers, the query program and \<open>run_cmd_popen\<close>).

  \<^bold>\<open>Kernel modules and their user programs.\<close>
  \<^item> \<open>Memdev\<close>: \<open>memdev/memdev.c\<close>. The state holds the module's globals, the open files with their regions, the pages
    and blocks it owns. Open, release, mmap, VMA close, init and exit are state transformers that take the answers
    of the kernel; \<open>memdev_step\<close> interleaves them. The page
    array of mmap may hold anything; \<open>stale_used\<close> records whether an old value was taken for a page. Shown: the accounting
    invariant in every reachable state, that mmap and close undo each other, that failures keep nothing, that the last
    close of a file reclaims what VMA closes have missed, that unloading is clean; and what an old value does to
    each of these.
  \<^item> \<open>PageTable\<close>, \<open>PageQuery\<close>: \<open>mm/page_table\<close> and \<open>linux-c/va-to-pa.c\<close>. The five-level walk refines a generic
    walk over a list of levels; the ioctl drops every reference; the query program asks the module and pagemap, whose
    answers agree for pages of every size.
  \<^item> \<open>MmShow\<close>: \<open>mm/mm_show\<close>. Printed sizes can be read back; the two ways of reading a node agree.
  \<^item> \<open>Racer\<close>: \<open>semaphore/semaphore_demo.c\<close>, six threads and init as a step relation over their program counters.
    Mutual exclusion, reference counts, progress and termination in every interleaving.
  \<^item> \<open>WorkQueue\<close>: \<open>kernel-tasks/work_queue_demo.c\<close>. References and memory agree with the pending works.
  \<^item> \<open>Genl\<close>, \<open>GenlSession\<close>: \<open>netlink-generic\<close>. Reporter, module and listener, first one event, then a session of
    any number of events with those that arrive while the module is still being initialised, of which netlink may
    deliver any.
  \<^item> \<open>SysfsDemo\<close>: \<open>sysfs\<close>. The attribute groups make the files the reader opens; what the module
    publishes is what the reader reads, as long as it is loaded; loading and unloading.
  \<^item> \<open>KunitDemo\<close>: \<open>kunit\<close>. Arithmetic with wrap-around.

  \<^bold>\<open>User programs.\<close>
  \<^item> \<open>Config\<close>: \<open>config-demo\<close>. Defaults, file, environment and command line as sources that share the locale
    \<open>config_source\<close>; the priority of the sources, and the parser of the file.
  \<^item> \<open>InetIo\<close>, \<open>InetSocket\<close>: \<open>socket/inet-socket\<close>. Packets on a byte stream whose calls may fail or come short; address loops as the locale
    \<open>address_loop\<close>; a whole session of client and server.
  \<^item> \<open>UnixSocket\<close>: \<open>socket/unix-socket\<close>, all four programs with every error exit.
  \<^item> \<open>Klog\<close>: \<open>klog-demo.c\<close>, the incremental reader with its static buffers; what each round prints, rounds
    without news included.
  \<^item> \<open>PosixSem\<close>: \<open>semaphore\<close>, the wrappers, the command line tool, and parent and child in every interleaving.
  \<^item> \<open>SysfsParser\<close>: \<open>sysfs-parser.c\<close>, parsing a list of ranges into a mask.
  \<^item> \<open>PerfCount\<close>: \<open>perf-count.c\<close>; \<open>NumaDemo\<close>: \<open>libnuma-demo.c\<close>; \<open>Digest\<close>: \<open>openssl/digest.c\<close>;
    \<open>StdioDemo\<close>: \<open>c/stdio-demo.c\<close> and \<open>shell-cmd-in-c.c\<close>: results, output and resources in every case.
  \<^item> \<open>CLayout\<close>: \<open>c/struct-demo.c\<close> and \<open>c/union-demo.c\<close> over a model of the layout of C objects that is sound
    for every type and access path; the members, sizes and bytes of the types the demos declare.

  \<^bold>\<open>Loops and bounds.\<close> Loops are structural recursion, or recursion with a termination proof (\<open>power_loop\<close>,
    \<open>getline_loop\<close>, \<open>hex_of\<close>). Two loops of the sources may run for ever: \<open>set_range\<close> of \<open>SysfsParser\<close>, whose
    endless case is a result of its own that is characterised exactly, and the monitoring loop of \<open>Genl\<close>, which waits once
    the given messages are used up. No definition uses fuel, except \<open>read_parts\<close> of \<open>MmShow\<close>, a specification, with
    five parts for the five units.

  \<^bold>\<open>Hypotheses about code outside of the repository.\<close> \<open>nl_contract\<close> (netlink buffers), \<open>evp_contract\<close>
    (digest functions), the contracts of the two kinds of semaphores, \<open>mmap_env_ok\<close> (the page allocator gives out
    free pages, each once), \<open>pagemap_shows\<close> (the frame number in pagemap), \<open>node_api_ok\<close> (node accessors). Each is instantiated in a witness.

  \<^bold>\<open>Not modelled.\<close> Log messages without influence on the state, the registration tables of drivers beyond what the
    properties need, \<open>print_usage\<close> and other constant texts, the contents of \<open>perf_event_attr\<close>; the test programs
    (\<open>test_memdev.c\<close> and the KUnit suites) and the gcov example; shell scripts, makefiles and documents. The
    memory model of concurrent steps is sequential consistency at the granularity of the modelled steps. What
    remains to be done: the benchmark \<open>test_memdev.c\<close> as a client of \<open>Memdev\<close>, and the printing of \<open>addrinfo\<close> structures
    and of netlink messages.
\<close>

end
